theory Spec2Isabelle
  imports Main "HOL-Library.Word"
begin

unbundle bit_operations_syntax

section \<open>Data model (elf.h, loader.h)\<close>

text \<open>
  Structure members keep their names from the C sources, except where two structures
  share a member name or the name is taken: \<^verbatim>\<open>size\<close> of a memory region is
  \<open>size_r\<close>; the members of \<^verbatim>\<open>mimi_segment_info_t\<close> carry the prefix \<open>seg_\<close>,
  those of \<^verbatim>\<open>mimi_region_t\<close> the prefix \<open>r_\<close>, those of
  \<^verbatim>\<open>mimi_image_info_t\<close> the prefix \<open>img_\<close>, those of
  \<^verbatim>\<open>mimi_platform_info_t\<close> the prefix \<open>pl_\<close>; in the handoff descriptor
  \<^verbatim>\<open>image\<close>, \<^verbatim>\<open>region_count\<close> and \<^verbatim>\<open>regions\<close> are \<open>image_h\<close>,
  \<open>h_region_count\<close> and \<open>h_regions\<close>; \<^verbatim>\<open>boot_count\<close> of the configuration is
  \<open>cfg_boot_count\<close>.
\<close>

type_synonym u8 = "8 word"
type_synonym u16 = "16 word"
type_synonym u32 = "32 word"

text \<open>The status codes of \<^verbatim>\<open>mimi_err_t\<close> (loader.h).\<close>

datatype mimi_err =
    MIMI_OK
  | MIMI_ERR_IO
  | MIMI_ERR_NOT_FOUND
  | MIMI_ERR_READ
  | MIMI_ERR_SEEK
  | MIMI_ERR_NOT_ELF
  | MIMI_ERR_NOT_ELF32
  | MIMI_ERR_NOT_LE
  | MIMI_ERR_NOT_EXEC
  | MIMI_ERR_NOT_ARM
  | MIMI_ERR_BAD_VERSION
  | MIMI_ERR_NO_ENTRY
  | MIMI_ERR_NO_PHDRS
  | MIMI_ERR_BAD_PHDR_SIZE
  | MIMI_ERR_TOO_MANY_PHDRS
  | MIMI_ERR_NO_LOADABLE
  | MIMI_ERR_ADDR_INVALID
  | MIMI_ERR_ADDR_OVERLAP
  | MIMI_ERR_TOO_LARGE
  | MIMI_ERR_LOAD_FAILED
  | MIMI_ERR_ALIGNMENT
  | MIMI_ERR_NO_MEMORY
  | MIMI_ERR_BAD_REGION

text \<open>\<^verbatim>\<open>Elf32_Ehdr\<close>: 52 bytes, \<^verbatim>\<open>e_ident\<close> being the first 16.\<close>

record Elf32_Ehdr =
  e_ident :: "u8 list"
  e_type :: u16
  e_machine :: u16
  e_version :: u32
  e_entry :: u32
  e_phoff :: u32
  e_shoff :: u32
  e_flags :: u32
  e_ehsize :: u16
  e_phentsize :: u16
  e_phnum :: u16
  e_shentsize :: u16
  e_shnum :: u16
  e_shstrndx :: u16

text \<open>\<^verbatim>\<open>Elf32_Phdr\<close>: 32 bytes, eight little-endian words.\<close>

record Elf32_Phdr =
  p_type :: u32
  p_offset :: u32
  p_vaddr :: u32
  p_paddr :: u32
  p_filesz :: u32
  p_memsz :: u32
  p_flags :: u32
  p_align :: u32

definition EI_MAG0 :: nat where "EI_MAG0 = 0"
definition EI_MAG1 :: nat where "EI_MAG1 = 1"
definition EI_MAG2 :: nat where "EI_MAG2 = 2"
definition EI_MAG3 :: nat where "EI_MAG3 = 3"
definition EI_CLASS :: nat where "EI_CLASS = 4"
definition EI_DATA :: nat where "EI_DATA = 5"
definition EI_VERSION :: nat where "EI_VERSION = 6"

definition ELFMAG0 :: u8 where "ELFMAG0 = 0x7f"
definition ELFMAG1 :: u8 where "ELFMAG1 = 0x45"
definition ELFMAG2 :: u8 where "ELFMAG2 = 0x4c"
definition ELFMAG3 :: u8 where "ELFMAG3 = 0x46"
definition ELFCLASS32 :: u8 where "ELFCLASS32 = 1"
definition ELFDATA2LSB :: u8 where "ELFDATA2LSB = 1"
definition EV_CURRENT :: nat where "EV_CURRENT = 1"
definition ET_EXEC :: u16 where "ET_EXEC = 2"
definition EM_ARM :: u16 where "EM_ARM = 40"
definition PT_LOAD :: u32 where "PT_LOAD = 1"
definition PF_X :: u32 where "PF_X = 1"

definition sizeof_Ehdr :: nat where "sizeof_Ehdr = 52"
definition sizeof_Phdr :: nat where "sizeof_Phdr = 32"

definition MIMI_MAX_SEGMENTS :: nat where "MIMI_MAX_SEGMENTS = 16"
definition LOAD_BUFFER_SIZE :: u32 where "LOAD_BUFFER_SIZE = 512"

definition MIMI_MEM_WRITE :: u32 where "MIMI_MEM_WRITE = 0x0002"
definition MIMI_MEM_RAM :: u32 where "MIMI_MEM_RAM = 0x0010"

record mimi_mem_region =
  base :: u32
  size_r :: u32
  flags :: u32

record mimi_segment_info =
  seg_vaddr :: u32
  seg_size :: u32
  seg_flags :: u32
  loaded :: bool

record mimi_load_result =
  status :: mimi_err
  entry :: u32
  load_base :: u32
  load_end :: u32
  total_size :: u32
  segment_count :: u32
  segments :: "mimi_segment_info list"
  bytes_copied :: u32
  bytes_zeroed :: u32

section \<open>ELF header validation (loader.c)\<close>

definition mimi_elf_validate_header :: "Elf32_Ehdr \<Rightarrow> mimi_err" where
  "mimi_elf_validate_header ehdr =
    (if e_ident ehdr ! EI_MAG0 \<noteq> ELFMAG0 \<or> e_ident ehdr ! EI_MAG1 \<noteq> ELFMAG1 \<or>
        e_ident ehdr ! EI_MAG2 \<noteq> ELFMAG2 \<or> e_ident ehdr ! EI_MAG3 \<noteq> ELFMAG3
     then MIMI_ERR_NOT_ELF
     else if e_ident ehdr ! EI_CLASS \<noteq> ELFCLASS32 then MIMI_ERR_NOT_ELF32
     else if e_ident ehdr ! EI_DATA \<noteq> ELFDATA2LSB then MIMI_ERR_NOT_LE
     else if unat (e_ident ehdr ! EI_VERSION) \<noteq> EV_CURRENT \<or> unat (e_version ehdr) \<noteq> EV_CURRENT
     then MIMI_ERR_BAD_VERSION
     else if e_type ehdr \<noteq> ET_EXEC then MIMI_ERR_NOT_EXEC
     else if e_machine ehdr \<noteq> EM_ARM then MIMI_ERR_NOT_ARM
     else if e_entry ehdr = 0 then MIMI_ERR_NO_ENTRY
     else if e_phoff ehdr = 0 \<or> e_phnum ehdr = 0 then MIMI_ERR_NO_PHDRS
     else if unat (e_phentsize ehdr) \<noteq> sizeof_Phdr then MIMI_ERR_BAD_PHDR_SIZE
     else if e_phnum ehdr > 64 then MIMI_ERR_TOO_MANY_PHDRS
     else MIMI_OK)"

section \<open>Post-load validation (loader.c)\<close>

text \<open>
  The scan for an executable segment only sets a local flag that is never acted on
  (``warning but not error''); it is kept as \<open>has_exec\<close> and does not reach the result.
\<close>

definition has_exec :: "mimi_load_result \<Rightarrow> bool" where
  "has_exec result =
    list_ex (\<lambda>s. seg_flags s AND PF_X \<noteq> 0) (take (unat (segment_count result)) (segments result))"

definition mimi_elf_validate_loaded :: "mimi_load_result \<Rightarrow> mimi_err" where
  "mimi_elf_validate_loaded result =
    (if status result \<noteq> MIMI_OK then status result
     else if entry result < load_base result \<or> entry result \<ge> load_end result
     then MIMI_ERR_NO_ENTRY
     else (let x = has_exec result in MIMI_OK))"

section \<open>Target memory and the libc-free helpers (loader.c)\<close>

text \<open>
  Target memory is a store from 32-bit addresses to bytes; pointer increments wrap like
  the 32-bit address arithmetic of the target.  The loader's own variables (the result
  structure, the on-stack buffer) are kept apart from this store.
\<close>

type_synonym memory = "u32 \<Rightarrow> u8"

text \<open>\<^verbatim>\<open>while (size--) *d++ = val;\<close>\<close>

fun mimi_memset :: "memory \<Rightarrow> u32 \<Rightarrow> u8 \<Rightarrow> nat \<Rightarrow> memory" where
  "mimi_memset m d val 0 = m"
| "mimi_memset m d val (Suc n) = mimi_memset (m(d := val)) (d + 1) val n"

text \<open>\<^verbatim>\<open>while (size--) *d++ = *s++;\<close> with the source being the local buffer.\<close>

fun mimi_memcpy :: "memory \<Rightarrow> u32 \<Rightarrow> u8 list \<Rightarrow> memory" where
  "mimi_memcpy m d [] = m"
| "mimi_memcpy m d (b # bs) = mimi_memcpy (m(d := b)) (d + 1) bs"

fun mimi_memcmp :: "memory \<Rightarrow> u32 \<Rightarrow> u8 list \<Rightarrow> int" where
  "mimi_memcmp m a [] = 0"
| "mimi_memcmp m a (b # bs) =
     (if m a \<noteq> b then (if m a < b then - 1 else 1) else mimi_memcmp m (a + 1) bs)"

section \<open>Loader configuration and I/O (loader.h)\<close>

text \<open>
  The \<^verbatim>\<open>read\<close> callback of \<^verbatim>\<open>mimi_io_ops_t\<close>, with the opaque file handle
  folded in: \<open>rd offset size\<close> is \<open>None\<close> when the callback returns a negative value
  and \<open>Some bs\<close> when it returns \<open>length bs\<close> after storing \<open>bs\<close> in the buffer.
\<close>

type_synonym io_read = "u32 \<Rightarrow> u32 \<Rightarrow> u8 list option"

record mimi_loader_config =
  regions :: "mimi_mem_region list"
  region_count :: u32
  io :: io_read
  validate_addresses :: bool
  zero_bss :: bool
  verify_after_load :: bool

section \<open>Decoding the little-endian structures read from the file (elf.h)\<close>

definition rd16 :: "u8 list \<Rightarrow> nat \<Rightarrow> u16" where
  "rd16 bs i = ucast (bs ! i) OR push_bit 8 (ucast (bs ! (i + 1)))"

definition rd32 :: "u8 list \<Rightarrow> nat \<Rightarrow> u32" where
  "rd32 bs i = ucast (bs ! i) OR push_bit 8 (ucast (bs ! (i + 1))) OR
               push_bit 16 (ucast (bs ! (i + 2))) OR push_bit 24 (ucast (bs ! (i + 3)))"

definition decode_ehdr :: "u8 list \<Rightarrow> Elf32_Ehdr" where
  "decode_ehdr bs =
    \<lparr>e_ident = take 16 bs, e_type = rd16 bs 16, e_machine = rd16 bs 18,
     e_version = rd32 bs 20, e_entry = rd32 bs 24, e_phoff = rd32 bs 28,
     e_shoff = rd32 bs 32, e_flags = rd32 bs 36, e_ehsize = rd16 bs 40,
     e_phentsize = rd16 bs 42, e_phnum = rd16 bs 44, e_shentsize = rd16 bs 46,
     e_shnum = rd16 bs 48, e_shstrndx = rd16 bs 50\<rparr>"

definition decode_phdr :: "u8 list \<Rightarrow> Elf32_Phdr" where
  "decode_phdr bs =
    \<lparr>p_type = rd32 bs 0, p_offset = rd32 bs 4, p_vaddr = rd32 bs 8, p_paddr = rd32 bs 12,
     p_filesz = rd32 bs 16, p_memsz = rd32 bs 20, p_flags = rd32 bs 24, p_align = rd32 bs 28\<rparr>"

text \<open>
  \<^verbatim>\<open>io->read(file, 0, &ehdr, sizeof(ehdr))\<close> and
  \<^verbatim>\<open>io->read(file, e_phoff + i * sizeof(Elf32_Phdr), &phdr, sizeof(phdr))\<close>,
  each followed by the test that the full size was read.
\<close>

definition read_ehdr :: "io_read \<Rightarrow> Elf32_Ehdr option" where
  "read_ehdr rd =
    (case rd 0 (of_nat sizeof_Ehdr) of
       None \<Rightarrow> None
     | Some bs \<Rightarrow> if length bs \<noteq> sizeof_Ehdr then None else Some (decode_ehdr bs))"

definition read_phdr :: "io_read \<Rightarrow> Elf32_Ehdr \<Rightarrow> nat \<Rightarrow> Elf32_Phdr option" where
  "read_phdr rd ehdr i =
    (case rd (e_phoff ehdr + of_nat i * of_nat sizeof_Phdr) (of_nat sizeof_Phdr) of
       None \<Rightarrow> None
     | Some bs \<Rightarrow> if length bs \<noteq> sizeof_Phdr then None else Some (decode_phdr bs))"

section \<open>Address validation (loader.c)\<close>

definition mimi_addr_in_region :: "u32 \<Rightarrow> u32 \<Rightarrow> mimi_mem_region \<Rightarrow> bool" where
  "mimi_addr_in_region addr sz region =
    (if addr + sz < addr then False
     else (let region_end = base region + size_r region
           in addr \<ge> base region \<and> addr + sz \<le> region_end))"

fun addr_valid_loop :: "u32 \<Rightarrow> u32 \<Rightarrow> u32 \<Rightarrow> mimi_mem_region list \<Rightarrow> bool" where
  "addr_valid_loop addr sz required_flags [] = False"
| "addr_valid_loop addr sz required_flags (region # rs) =
    (if flags region AND required_flags \<noteq> required_flags
     then addr_valid_loop addr sz required_flags rs
     else if mimi_addr_in_region addr sz region then True
     else addr_valid_loop addr sz required_flags rs)"

definition mimi_addr_valid :: "u32 \<Rightarrow> u32 \<Rightarrow> u32 \<Rightarrow> mimi_loader_config \<Rightarrow> bool" where
  "mimi_addr_valid addr sz required_flags config =
    addr_valid_loop addr sz required_flags
      (take (unat (region_count config)) (regions config))"

definition mimi_ranges_overlap :: "u32 \<Rightarrow> u32 \<Rightarrow> u32 \<Rightarrow> u32 \<Rightarrow> bool" where
  "mimi_ranges_overlap a_start a_size b_start b_size =
    (let a_end = a_start + a_size; b_end = b_start + b_size
     in a_start < b_end \<and> b_start < a_end)"

section \<open>Segment loading (loader.c)\<close>

definition chunk_of :: "u32 \<Rightarrow> u32" where
  "chunk_of remaining = (if remaining > LOAD_BUFFER_SIZE then LOAD_BUFFER_SIZE else remaining)"

lemma chunk_of_le: "chunk_of r \<le> r"
  by (auto simp: chunk_of_def)

lemma chunk_of_pos: "r \<noteq> 0 \<Longrightarrow> chunk_of r \<noteq> 0"
  by (auto simp: chunk_of_def LOAD_BUFFER_SIZE_def)

lemma unat_sub_chunk_less: "r \<noteq> 0 \<Longrightarrow> unat (r - chunk_of r) < unat r"
  using chunk_of_le [of r] chunk_of_pos [of r]
  by (simp add: unat_sub unat_gt_0)

text \<open>
  The copy loop of \<open>mimi_load_segment\<close>.  The state is
  \<open>(file_offset, dest_addr, remaining)\<close>, the target memory and \<open>*bytes_copied\<close>;
  the result carries the final \<open>dest_addr\<close>, which the zero phase starts from.
\<close>

function copy_loop ::
  "io_read \<Rightarrow> u32 \<Rightarrow> u32 \<Rightarrow> u32 \<Rightarrow> memory \<Rightarrow> u32 \<Rightarrow> mimi_err \<times> memory \<times> u32 \<times> u32" where
  "copy_loop rd file_offset dest_addr remaining m bc =
    (if remaining > 0 then
       (case rd file_offset (chunk_of remaining) of
          None \<Rightarrow> (MIMI_ERR_READ, m, dest_addr, bc)
        | Some buffer \<Rightarrow>
            if length buffer \<noteq> unat (chunk_of remaining) then (MIMI_ERR_READ, m, dest_addr, bc)
            else copy_loop rd (file_offset + chunk_of remaining) (dest_addr + chunk_of remaining)
                   (remaining - chunk_of remaining) (mimi_memcpy m dest_addr buffer)
                   (bc + chunk_of remaining))
     else (MIMI_OK, m, dest_addr, bc))"
  by pat_completeness auto
termination
  by (relation "measure (\<lambda>(rd, fo, d, r, m, bc). unat r)")
     (auto simp: unat_sub_chunk_less word_greater_zero_iff)

text \<open>The optional read-back loop of \<open>mimi_load_segment\<close>.\<close>

function verify_loop :: "io_read \<Rightarrow> u32 \<Rightarrow> u32 \<Rightarrow> u32 \<Rightarrow> memory \<Rightarrow> mimi_err" where
  "verify_loop rd file_offset dest_addr remaining m =
    (if remaining > 0 then
       (case rd file_offset (chunk_of remaining) of
          None \<Rightarrow> MIMI_ERR_READ
        | Some buffer \<Rightarrow>
            if length buffer \<noteq> unat (chunk_of remaining) then MIMI_ERR_READ
            else if mimi_memcmp m dest_addr buffer \<noteq> 0 then MIMI_ERR_LOAD_FAILED
            else verify_loop rd (file_offset + chunk_of remaining) (dest_addr + chunk_of remaining)
                   (remaining - chunk_of remaining) m)
     else MIMI_OK)"
  by pat_completeness auto
termination
  by (relation "measure (\<lambda>(rd, fo, d, r, m). unat r)")
     (auto simp: unat_sub_chunk_less word_greater_zero_iff)

text \<open>
  \<open>mimi_load_segment config phdr bytes_copied bytes_zeroed m\<close> returns the status, the
  segment-info entry as it is left behind, the memory and the two counters.
\<close>

definition mimi_load_segment ::
  "mimi_loader_config \<Rightarrow> Elf32_Phdr \<Rightarrow> u32 \<Rightarrow> u32 \<Rightarrow> memory \<Rightarrow>
     mimi_err \<times> mimi_segment_info \<times> memory \<times> u32 \<times> u32" where
  "mimi_load_segment config phdr bc bz m =
    (let info = \<lparr>seg_vaddr = p_vaddr phdr, seg_size = p_memsz phdr,
                 seg_flags = p_flags phdr, loaded = False\<rparr>
     in
     if p_memsz phdr = 0 then (MIMI_OK, info\<lparr>loaded := True\<rparr>, m, bc, bz)
     else if validate_addresses config \<and>
             \<not> mimi_addr_valid (p_vaddr phdr) (p_memsz phdr) (MIMI_MEM_WRITE OR MIMI_MEM_RAM) config
     then (MIMI_ERR_ADDR_INVALID, info, m, bc, bz)
     else
       (case copy_loop (io config) (p_offset phdr) (p_vaddr phdr) (p_filesz phdr) m bc of
          (err, m1, dest_addr, bc1) \<Rightarrow>
            if err \<noteq> MIMI_OK then (err, info, m1, bc1, bz)
            else
              (let zero = zero_bss config \<and> p_memsz phdr > p_filesz phdr;
                   bss_size = p_memsz phdr - p_filesz phdr;
                   m2 = (if zero then mimi_memset m1 dest_addr 0 (unat bss_size) else m1);
                   bz2 = (if zero then bz + bss_size else bz);
                   verr = (if verify_after_load config \<and> p_filesz phdr > 0
                           then verify_loop (io config) (p_offset phdr) (p_vaddr phdr)
                                  (p_filesz phdr) m2
                           else MIMI_OK)
               in if verr \<noteq> MIMI_OK then (verr, info, m2, bc1, bz2)
                  else (MIMI_OK, info\<lparr>loaded := True\<rparr>, m2, bc1, bz2))))"

section \<open>The main load function (loader.c)\<close>

text \<open>
  The first pass keeps \<open>seg_info[0 .. loadable_count)\<close>, the running \<open>total_memsz\<close>
  and the bounds stored in the result; \<open>loadable_count\<close> is the number of recorded
  entries.
\<close>

record pass1_state =
  seg_info :: "(u32 \<times> u32) list"
  total_memsz :: u32
  p1_load_base :: u32
  p1_load_end :: u32

definition loadable_count :: "pass1_state \<Rightarrow> nat" where
  "loadable_count st = length (seg_info st)"

text \<open>
  The end of the body of the first loop, for a segment that passed the checks: record it
  in \<open>seg_info\<close>, track the bounds, add to \<open>total_memsz\<close>, count it.
\<close>

definition pass1_accept :: "pass1_state \<Rightarrow> Elf32_Phdr \<Rightarrow> pass1_state" where
  "pass1_accept st phdr =
    \<lparr>seg_info = seg_info st @ [(p_vaddr phdr, p_memsz phdr)],
     total_memsz = total_memsz st + p_memsz phdr,
     p1_load_base = (if p_vaddr phdr < p1_load_base st then p_vaddr phdr else p1_load_base st),
     p1_load_end = (if p_vaddr phdr + p_memsz phdr > p1_load_end st
                    then p_vaddr phdr + p_memsz phdr else p1_load_end st)\<rparr>"

text \<open>
  One run of the first loop over the program-header indices \<open>is\<close>; the status is
  \<open>MIMI_OK\<close> when the loop runs to its end.
\<close>

fun pass1 :: "mimi_loader_config \<Rightarrow> Elf32_Ehdr \<Rightarrow> nat list \<Rightarrow> pass1_state \<Rightarrow> mimi_err \<times> pass1_state" where
  "pass1 config ehdr [] st = (MIMI_OK, st)"
| "pass1 config ehdr (i # is) st =
    (case read_phdr (io config) ehdr i of
       None \<Rightarrow> (MIMI_ERR_READ, st)
     | Some phdr \<Rightarrow>
         if p_type phdr \<noteq> PT_LOAD then pass1 config ehdr is st
         else if p_memsz phdr = 0 then pass1 config ehdr is st
         else if validate_addresses config \<and>
                 \<not> mimi_addr_valid (p_vaddr phdr) (p_memsz phdr)
                     (MIMI_MEM_WRITE OR MIMI_MEM_RAM) config
         then (MIMI_ERR_ADDR_INVALID, st)
         else if list_ex (\<lambda>(v, msz). mimi_ranges_overlap (p_vaddr phdr) (p_memsz phdr) v msz)
                   (seg_info st)
         then (MIMI_ERR_ADDR_OVERLAP, st)
         else pass1 config ehdr is (pass1_accept st phdr))"

text \<open>
  The second loop, over the indices \<open>is\<close>, with \<open>seg_index\<close>, the result structure and
  the memory as its state.  The \<^verbatim>\<open>break\<close> ends the loop with \<open>MIMI_OK\<close>.
\<close>

fun pass2 ::
  "mimi_loader_config \<Rightarrow> Elf32_Ehdr \<Rightarrow> nat list \<Rightarrow> nat \<Rightarrow> mimi_load_result \<Rightarrow> memory \<Rightarrow>
     mimi_err \<times> nat \<times> mimi_load_result \<times> memory" where
  "pass2 config ehdr [] seg_index result m = (MIMI_OK, seg_index, result, m)"
| "pass2 config ehdr (i # is) seg_index result m =
    (case read_phdr (io config) ehdr i of
       None \<Rightarrow> (MIMI_ERR_READ, seg_index, result, m)
     | Some phdr \<Rightarrow>
         if p_type phdr \<noteq> PT_LOAD then pass2 config ehdr is seg_index result m
         else if seg_index \<ge> MIMI_MAX_SEGMENTS then (MIMI_OK, seg_index, result, m)
         else
           (case mimi_load_segment config phdr (bytes_copied result) (bytes_zeroed result) m of
              (err, info, m', bc, bz) \<Rightarrow>
                (let result' = result\<lparr>segments := (segments result)[seg_index := info],
                                      bytes_copied := bc, bytes_zeroed := bz\<rparr>
                 in if err \<noteq> MIMI_OK then (err, seg_index, result', m')
                    else pass2 config ehdr is (Suc seg_index) result' m')))"

text \<open>The result structure after \<^verbatim>\<open>mimi_memset(result, 0, sizeof(*result))\<close> and the
  two assignments that follow it.\<close>

definition result_init :: mimi_load_result where
  "result_init =
    \<lparr>status = MIMI_OK, entry = 0, load_base = 0xFFFFFFFF, load_end = 0, total_size = 0,
     segment_count = 0,
     segments = replicate MIMI_MAX_SEGMENTS
                  \<lparr>seg_vaddr = 0, seg_size = 0, seg_flags = 0, loaded = False\<rparr>,
     bytes_copied = 0, bytes_zeroed = 0\<rparr>"

definition pass1_init :: pass1_state where
  "pass1_init = \<lparr>seg_info = [], total_memsz = 0, p1_load_base = 0xFFFFFFFF, p1_load_end = 0\<rparr>"

definition mimi_elf_load :: "mimi_loader_config \<Rightarrow> memory \<Rightarrow> mimi_load_result \<times> memory" where
  "mimi_elf_load config m =
    (case read_ehdr (io config) of
       None \<Rightarrow> (result_init\<lparr>status := MIMI_ERR_READ\<rparr>, m)
     | Some ehdr \<Rightarrow>
         if mimi_elf_validate_header ehdr \<noteq> MIMI_OK
         then (result_init\<lparr>status := mimi_elf_validate_header ehdr\<rparr>, m)
         else
           (case pass1 config ehdr [0 ..< min (unat (e_phnum ehdr)) MIMI_MAX_SEGMENTS] pass1_init of
              (err1, st) \<Rightarrow>
                (let result1 = result_init\<lparr>entry := e_entry ehdr,
                                 load_base := p1_load_base st, load_end := p1_load_end st\<rparr>
                 in if err1 \<noteq> MIMI_OK then (result1\<lparr>status := err1\<rparr>, m)
                    else if loadable_count st = 0 then (result1\<lparr>status := MIMI_ERR_NO_LOADABLE\<rparr>, m)
                    else
                      (case pass2 config ehdr [0 ..< unat (e_phnum ehdr)] 0 result1 m of
                         (err2, seg_index, result2, m') \<Rightarrow>
                           if err2 \<noteq> MIMI_OK then (result2\<lparr>status := err2\<rparr>, m')
                           else (result2\<lparr>segment_count := of_nat seg_index,
                                          total_size := total_memsz st,
                                          status := MIMI_OK\<rparr>, m')))))"

section \<open>Handoff construction (handoff.c, handoff.h)\<close>

definition MIMI_HANDOFF_MAGIC :: u32 where "MIMI_HANDOFF_MAGIC = 0x494D494D"
definition MIMI_HANDOFF_VERSION :: u32 where "MIMI_HANDOFF_VERSION = 1"
definition MIMI_MAX_REGIONS :: nat where "MIMI_MAX_REGIONS = 8"
definition MIMI_REGION_RAM :: u32 where "MIMI_REGION_RAM = 0x00000001"
definition MIMI_REGION_FLASH :: u32 where "MIMI_REGION_FLASH = 0x00000002"
definition MIMI_REGION_LOADER :: u32 where "MIMI_REGION_LOADER = 0x00000010"
definition MIMI_REGION_PAYLOAD :: u32 where "MIMI_REGION_PAYLOAD = 0x00000020"

text \<open>
  \<^verbatim>\<open>sizeof(mimi_handoff_t)\<close> of the structure as handoff.h declares it: sixteen words of
  identification, boot context, timing and memory layout (64 bytes), the image
  information (16 + 32 = 48), \<^verbatim>\<open>region_count\<close> and \<^verbatim>\<open>reserved_regions\<close> (8), eight region
  descriptors of four words (128) and eight reserved words (32).  Every member is a
  32-bit word or a character array of 32 bytes, so there is no padding: 280 bytes.  The
  comment and the compile-time assertion of handoff.h say 256, which this declaration
  does not meet; \<open>mimi_handoff_build\<close> stores the value of \<^verbatim>\<open>sizeof\<close>.
\<close>

definition sizeof_handoff :: u32 where "sizeof_handoff = 280"

record mimi_region =
  r_base :: u32
  r_size :: u32
  r_flags :: u32
  r_reserved :: u32

record mimi_image_info =
  img_entry :: u32
  img_load_base :: u32
  img_load_size :: u32
  img_crc32 :: u32
  img_name :: "u8 list"

record mimi_handoff =
  magic :: u32
  version :: u32
  struct_size :: u32
  header_crc :: u32
  boot_reason :: u32
  boot_source :: u32
  boot_count :: u32
  boot_flags :: u32
  sys_clock_hz :: u32
  boot_time_us :: u32
  loader_time_us :: u32
  reserved_timing :: u32
  ram_base :: u32
  ram_size :: u32
  loader_base :: u32
  loader_size :: u32
  image_h :: mimi_image_info
  h_region_count :: u32
  reserved_regions :: u32
  h_regions :: "mimi_region list"
  reserved :: "u32 list"

text \<open>The fields of \<^verbatim>\<open>mimi_platform_info_t\<close> that the builder reads.\<close>

record mimi_platform_info =
  pl_reset_reason :: u32
  pl_boot_source :: u32
  pl_sys_clock_hz :: u32
  pl_ram_base :: u32
  pl_ram_size :: u32
  pl_loader_base :: u32
  pl_loader_size :: u32

text \<open>A 32-bit field as it lies in little-endian memory.\<close>

definition le32 :: "u32 \<Rightarrow> u8 list" where
  "le32 w = [ucast w, ucast (drop_bit 8 w), ucast (drop_bit 16 w), ucast (drop_bit 24 w)]"

definition le16 :: "u16 \<Rightarrow> u8 list" where
  "le16 w = [ucast w, ucast (drop_bit 8 w)]"

text \<open>The first 16 bytes of the descriptor in memory: the four identification words.\<close>

definition handoff_header_bytes :: "mimi_handoff \<Rightarrow> u8 list" where
  "handoff_header_bytes h = le32 (magic h) @ le32 (version h) @ le32 (struct_size h) @ le32 (header_crc h)"

text \<open>
  \<open>mimi_strncpy\<close> into a zeroed destination of \<open>max\<close> characters: at most
  \<open>max - 1\<close> characters up to the terminator, the rest staying zero.
\<close>

definition mimi_strncpy :: "u8 list \<Rightarrow> nat \<Rightarrow> u8 list" where
  "mimi_strncpy src mx =
    (let copied = take (mx - 1) (takeWhile (\<lambda>c. c \<noteq> 0) src)
     in copied @ replicate (mx - length copied) 0)"

text \<open>One round of the inner loop of \<open>mimi_crc32\<close>:
  \<^verbatim>\<open>crc = (crc >> 1) ^ (0xEDB88320 & -(crc & 1))\<close>.\<close>

definition crc_round :: "u32 \<Rightarrow> u32" where
  "crc_round crc = drop_bit 1 crc XOR (0xEDB88320 AND - (crc AND 1))"

definition crc_byte :: "u32 \<Rightarrow> u8 \<Rightarrow> u32" where
  "crc_byte crc b = (crc_round ^^ 8) (crc XOR ucast b)"

fun crc_loop :: "u8 list \<Rightarrow> u32 \<Rightarrow> u32" where
  "crc_loop [] crc = crc"
| "crc_loop (b # p) crc = crc_loop p (crc_byte crc b)"

definition mimi_crc32 :: "u8 list \<Rightarrow> nat \<Rightarrow> u32" where
  "mimi_crc32 data len = NOT (crc_loop (take len data) 0xFFFFFFFF)"

definition handoff_zero :: mimi_handoff where
  "handoff_zero =
    \<lparr>magic = 0, version = 0, struct_size = 0, header_crc = 0, boot_reason = 0, boot_source = 0,
     boot_count = 0, boot_flags = 0, sys_clock_hz = 0, boot_time_us = 0, loader_time_us = 0,
     reserved_timing = 0, ram_base = 0, ram_size = 0, loader_base = 0, loader_size = 0,
     image_h = \<lparr>img_entry = 0, img_load_base = 0, img_load_size = 0, img_crc32 = 0,
               img_name = replicate 32 0\<rparr>,
     h_region_count = 0, reserved_regions = 0,
     h_regions = replicate MIMI_MAX_REGIONS \<lparr>r_base = 0, r_size = 0, r_flags = 0, r_reserved = 0\<rparr>,
     reserved = replicate 8 0\<rparr>"

text \<open>Appending one entry to the region table, guarded by the capacity test.\<close>

definition add_region :: "u32 \<Rightarrow> u32 \<Rightarrow> u32 \<Rightarrow> mimi_handoff \<Rightarrow> mimi_handoff" where
  "add_region b sz fl h =
    (if unat (h_region_count h) < MIMI_MAX_REGIONS
     then h\<lparr>h_regions := (h_regions h)[unat (h_region_count h) :=
                 \<lparr>r_base = b, r_size = sz, r_flags = fl, r_reserved = 0\<rparr>],
            h_region_count := h_region_count h + 1\<rparr>
     else h)"

text \<open>
  \<open>mimi_handoff_build load_result platform image_name now\<close>; \<open>now\<close> is the value
  returned by \<^verbatim>\<open>hal_get_time_us()\<close> and \<open>image_name\<close> is \<open>None\<close> for a null pointer.
\<close>

definition mimi_handoff_build ::
  "mimi_load_result \<Rightarrow> mimi_platform_info \<Rightarrow> u8 list option \<Rightarrow> u32 \<Rightarrow> mimi_handoff" where
  "mimi_handoff_build load_result platform image_name now =
    (let h1 = handoff_zero\<lparr>magic := MIMI_HANDOFF_MAGIC, version := MIMI_HANDOFF_VERSION,
                struct_size := sizeof_handoff,
                boot_reason := pl_reset_reason platform, boot_source := pl_boot_source platform,
                boot_count := 0, boot_flags := 0,
                sys_clock_hz := pl_sys_clock_hz platform,
                boot_time_us := now, loader_time_us := now,
                ram_base := pl_ram_base platform, ram_size := pl_ram_size platform,
                loader_base := pl_loader_base platform, loader_size := pl_loader_size platform\<rparr>;
         img1 = (image_h h1)\<lparr>img_entry := entry load_result, img_load_base := load_base load_result,
                  img_load_size := total_size load_result, img_crc32 := 0\<rparr>;
         img2 = (case image_name of None \<Rightarrow> img1
                 | Some nm \<Rightarrow> img1\<lparr>img_name := mimi_strncpy nm 32\<rparr>);
         h2 = h1\<lparr>image_h := img2, h_region_count := 0\<rparr>;
         h3 = add_region (pl_ram_base platform) (pl_ram_size platform)
                (MIMI_REGION_RAM OR MIMI_REGION_PAYLOAD) h2;
         h4 = add_region (pl_loader_base platform) (pl_loader_size platform)
                (MIMI_REGION_FLASH OR MIMI_REGION_LOADER) h3;
         h5 = h4\<lparr>header_crc := 0\<rparr>
     in h5\<lparr>header_crc := mimi_crc32 (handoff_header_bytes h5) 16\<rparr>)"

text \<open>
  The CRC-32 of the specification, written from its words: reflected polynomial
  \<open>0xEDB88320\<close>, initial value \<open>0xFFFFFFFF\<close>, each byte XORed into the low end and
  shifted out bit by bit (the polynomial being XORed in when the bit shifted out is 1),
  final XOR with \<open>0xFFFFFFFF\<close>.
\<close>

definition crc32_spec_bit :: "u32 \<Rightarrow> u32" where
  "crc32_spec_bit crc = (if odd crc then drop_bit 1 crc XOR 0xEDB88320 else drop_bit 1 crc)"

definition crc32_spec :: "u8 list \<Rightarrow> u32" where
  "crc32_spec bs =
     fold (\<lambda>b crc. (crc32_spec_bit ^^ 8) (crc XOR ucast b)) bs 0xFFFFFFFF XOR 0xFFFFFFFF"

section \<open>Image selection and opening (config.c, main.c)\<close>

datatype fat32_err =
    FAT32_OK
  | FAT32_ERR_IO
  | FAT32_ERR_NOT_FAT32
  | FAT32_ERR_NOT_FOUND
  | FAT32_ERR_NOT_FILE
  | FAT32_ERR_NOT_DIR
  | FAT32_ERR_EOF
  | FAT32_ERR_INVALID

text \<open>The fields of \<^verbatim>\<open>mimi_config_t\<close> that image selection reads.\<close>

record mimi_config =
  image_path :: string
  fallback_path :: string
  has_fallback :: bool
  max_retries :: u32
  cfg_boot_count :: u32

definition mimi_config_boot_attempt :: "mimi_config \<Rightarrow> mimi_config" where
  "mimi_config_boot_attempt config = config\<lparr>cfg_boot_count := cfg_boot_count config + 1\<rparr>"

definition mimi_config_get_image :: "mimi_config \<Rightarrow> string option" where
  "mimi_config_get_image config =
    (if cfg_boot_count config \<ge> max_retries config \<and> has_fallback config \<and> fallback_path config \<noteq> []
     then Some (fallback_path config)
     else if image_path config \<noteq> [] then Some (image_path config)
     else None)"

definition BLINK_FILE_NOT_FOUND :: nat where "BLINK_FILE_NOT_FOUND = 5"

text \<open>
  Phase 7 of \<open>main\<close> up to the point where the image file is open.  \<open>fopen path\<close> is
  the status \<^verbatim>\<open>fat32_open(&s_fs, path, &s_loader_ctx.file)\<close> returns on the mounted
  volume.  The result is the list of paths \<open>fat32_open\<close> was called with, in order, and
  either the arguments of \<open>boot_fail\<close> or the path of the image now open.
\<close>

definition main_open_image ::
  "(string \<Rightarrow> fat32_err) \<Rightarrow> mimi_config \<Rightarrow> string list \<times> (nat \<times> string + string)" where
  "main_open_image fopen config0 =
    (let config = mimi_config_boot_attempt config0 in
     case mimi_config_get_image config of
       None \<Rightarrow> ([], Inl (BLINK_FILE_NOT_FOUND, ''No boot image configured''))
     | Some image_path1 \<Rightarrow>
         if fopen image_path1 \<noteq> FAT32_OK then
           (if has_fallback config \<and> fallback_path config \<noteq> [] then
              (if fopen (fallback_path config) \<noteq> FAT32_OK
               then ([image_path1, fallback_path config],
                     Inl (BLINK_FILE_NOT_FOUND, ''Boot image not found''))
               else ([image_path1, fallback_path config], Inr (fallback_path config)))
            else ([image_path1], Inl (BLINK_FILE_NOT_FOUND, ''Boot image not found'')))
         else ([image_path1], Inr image_path1))"

section \<open>Reference predicates and concrete inputs\<close>

text \<open>Every check of \<open>mimi_elf_validate_header\<close> other than the two on \<open>e_phnum\<close> passes.\<close>

definition ehdr_other_checks :: "Elf32_Ehdr \<Rightarrow> bool" where
  "ehdr_other_checks ehdr \<longleftrightarrow>
     e_ident ehdr ! EI_MAG0 = ELFMAG0 \<and> e_ident ehdr ! EI_MAG1 = ELFMAG1 \<and>
     e_ident ehdr ! EI_MAG2 = ELFMAG2 \<and> e_ident ehdr ! EI_MAG3 = ELFMAG3 \<and>
     e_ident ehdr ! EI_CLASS = ELFCLASS32 \<and> e_ident ehdr ! EI_DATA = ELFDATA2LSB \<and>
     unat (e_ident ehdr ! EI_VERSION) = EV_CURRENT \<and> unat (e_version ehdr) = EV_CURRENT \<and>
     e_type ehdr = ET_EXEC \<and> e_machine ehdr = EM_ARM \<and> e_entry ehdr \<noteq> 0 \<and>
     e_phoff ehdr \<noteq> 0 \<and> unat (e_phentsize ehdr) = sizeof_Phdr"

text \<open>An ARM executable header with \<open>n\<close> program headers right after it and entry
  \<open>0x20000001\<close>.\<close>

definition ehdr_n :: "u16 \<Rightarrow> Elf32_Ehdr" where
  "ehdr_n n =
    \<lparr>e_ident = [0x7f, 0x45, 0x4c, 0x46, 1, 1, 1, 0, 0, 0, 0, 0, 0, 0, 0, 0],
     e_type = 2, e_machine = 40, e_version = 1, e_entry = 0x20000001, e_phoff = 52,
     e_shoff = 0, e_flags = 0, e_ehsize = 52, e_phentsize = 32, e_phnum = n,
     e_shentsize = 0, e_shnum = 0, e_shstrndx = 0\<rparr>"

text \<open>The configuration used in the examples of image selection (the defaults of
  \<open>mimi_config_init\<close>).\<close>

definition config_default :: mimi_config where
  "config_default =
    \<lparr>image_path = ''/boot/kernel.elf'', fallback_path = ''/boot/recovery.elf'',
     has_fallback = True, max_retries = 3, cfg_boot_count = 0\<rparr>"

text \<open>A volume on which opening the primary image fails with an I/O error and every
  other path opens.\<close>

definition fopen_io_error :: "string \<Rightarrow> fat32_err" where
  "fopen_io_error path = (if path = ''/boot/kernel.elf'' then FAT32_ERR_IO else FAT32_OK)"

text \<open>
  The two structures as they lie in a file, for building concrete images, and a read
  callback over an in-memory file: it delivers the bytes present at \<open>offset\<close>, at most
  \<open>size\<close> of them, and never reports a fault.
\<close>

definition encode_ehdr :: "Elf32_Ehdr \<Rightarrow> u8 list" where
  "encode_ehdr e =
     e_ident e @ le16 (e_type e) @ le16 (e_machine e) @ le32 (e_version e) @ le32 (e_entry e) @
     le32 (e_phoff e) @ le32 (e_shoff e) @ le32 (e_flags e) @ le16 (e_ehsize e) @
     le16 (e_phentsize e) @ le16 (e_phnum e) @ le16 (e_shentsize e) @ le16 (e_shnum e) @
     le16 (e_shstrndx e)"

definition encode_phdr :: "Elf32_Phdr \<Rightarrow> u8 list" where
  "encode_phdr p =
     le32 (p_type p) @ le32 (p_offset p) @ le32 (p_vaddr p) @ le32 (p_paddr p) @
     le32 (p_filesz p) @ le32 (p_memsz p) @ le32 (p_flags p) @ le32 (p_align p)"

definition elf_image :: "Elf32_Ehdr \<Rightarrow> Elf32_Phdr list \<Rightarrow> u8 list \<Rightarrow> u8 list" where
  "elf_image e phs data = encode_ehdr e @ concat (map encode_phdr phs) @ data"

definition file_read :: "u8 list \<Rightarrow> io_read" where
  "file_read f offset sz = Some (take (unat sz) (drop (unat offset) f))"

text \<open>A \<open>PT_LOAD\<close> header (flags R|W|X) and a \<open>PT_NULL\<close> header.\<close>

definition ld :: "u32 \<Rightarrow> u32 \<Rightarrow> u32 \<Rightarrow> u32 \<Rightarrow> Elf32_Phdr" where
  "ld off va fsz msz =
    \<lparr>p_type = 1, p_offset = off, p_vaddr = va, p_paddr = va, p_filesz = fsz, p_memsz = msz,
     p_flags = 7, p_align = 1\<rparr>"

definition pt_null :: Elf32_Phdr where
  "pt_null =
    \<lparr>p_type = 0, p_offset = 0, p_vaddr = 0, p_paddr = 0, p_filesz = 0, p_memsz = 0,
     p_flags = 0, p_align = 0\<rparr>"

text \<open>The loader configuration of \<open>main\<close> (one readable, writable, executable RAM
  region; address validation and BSS zeroing on) for a 256 KiB RAM at \<open>0x20000000\<close>.\<close>

definition ram_region :: mimi_mem_region where
  "ram_region = \<lparr>base = 0x20000000, size_r = 0x40000, flags = 0x17\<rparr>"

definition test_config :: "u8 list \<Rightarrow> bool \<Rightarrow> mimi_loader_config" where
  "test_config f verify =
    \<lparr>regions = [ram_region], region_count = 1, io = file_read f, validate_addresses = True,
     zero_bss = True, verify_after_load = verify\<rparr>"

text \<open>Memory before loading: every byte \<open>0xFF\<close>.\<close>

definition mem_ff :: memory where
  "mem_ff = (\<lambda>a. 0xFF)"


text \<open>Two segments; the file ends before the data of the second one.\<close>

definition img_short :: "u8 list" where
  "img_short = elf_image (ehdr_n 2) [ld 116 0x20000000 1 1, ld 200 0x20000001 1 1] [0xAA]"


text \<open>One segment with \<open>p_filesz = 2 > p_memsz = 1\<close> whose only byte of memory is the
  last byte of the RAM region.\<close>

definition img_edge :: "u8 list" where
  "img_edge = elf_image (ehdr_n 1) [ld 84 0x2003FFFF 2 1] [0xAA, 0xBB]"

text \<open>Two segments that overlap in one byte: \<open>[0x20000000, 0x20000200)\<close> and
  \<open>[0x200001FF, 0x2000020F)\<close>.\<close>

definition img_overlap :: "u8 list" where
  "img_overlap = elf_image (ehdr_n 2) [ld 116 0x20000000 1 0x200, ld 116 0x200001FF 1 0x10] [0xAA]"

text \<open>The number of segments the first pass has recorded when it ends (0 when the
  header cannot be read).\<close>

definition pass1_loadable_count :: "mimi_loader_config \<Rightarrow> nat" where
  "pass1_loadable_count config =
    (case read_ehdr (io config) of
       None \<Rightarrow> 0
     | Some ehdr \<Rightarrow>
         loadable_count
           (snd (pass1 config ehdr [0 ..< min (unat (e_phnum ehdr)) MIMI_MAX_SEGMENTS] pass1_init)))"

text \<open>Seventeen one-byte segments at consecutive addresses, all reading the same file
  byte; and the first sixteen of them alone.\<close>

definition seg_k :: "u32 \<Rightarrow> nat \<Rightarrow> Elf32_Phdr" where
  "seg_k off k = ld off (0x20000000 + of_nat k) 1 1"

definition img17 :: "u8 list" where
  "img17 = elf_image (ehdr_n 17) (map (seg_k 596) [0 ..< 17]) [0xAA]"

definition img16 :: "u8 list" where
  "img16 = elf_image (ehdr_n 16) (map (seg_k 564) [0 ..< 16]) [0xAA]"

text \<open>Seventeen program headers: an empty \<open>PT_LOAD\<close> entry followed by sixteen one-byte
  segments at consecutive addresses.\<close>

definition img_e16 :: "u8 list" where
  "img_e16 = elf_image (ehdr_n 17) (ld 596 0x20000000 0 0 # map (seg_k 596) [0 ..< 16]) [0xAA]"

text \<open>Seventeen program headers: a two-byte segment, fifteen \<open>PT_NULL\<close> entries, and a
  second two-byte segment that overlaps the first in one byte.\<close>

definition img_hidden :: "u8 list" where
  "img_hidden =
     elf_image (ehdr_n 17)
       ([ld 596 0x20000000 2 2] @ replicate 15 pt_null @ [ld 598 0x20000001 2 2])
       [0xA0, 0xA1, 0xB0, 0xB1]"

text \<open>An empty \<open>PT_LOAD\<close> entry followed by a one-byte segment.\<close>

definition img_empty :: "u8 list" where
  "img_empty = elf_image (ehdr_n 2) [ld 116 0x20000000 0 0, ld 116 0x20000010 1 1] [0xAA]"

text \<open>
  The read callback behaves as reads of the file \<open>f\<close> (of a size that fits 32 bits):
  whenever it delivers the full number of bytes asked for, they are the bytes of \<open>f\<close>
  at that offset.  Faults and short reads are allowed.
\<close>

definition io_reads_file :: "io_read \<Rightarrow> u8 list \<Rightarrow> bool" where
  "io_reads_file rd f \<longleftrightarrow>
     length f < 2 ^ 32 \<and>
     (\<forall>off n bs. rd off n = Some bs \<longrightarrow> length bs = unat n \<longrightarrow>
        bs = take (unat n) (drop (unat off) f))"

text \<open>
  A program header the loader materializes; the addresses of its memory range
  \<open>[vaddr, vaddr + mem_size)\<close>; the addresses of \<open>[vaddr, vaddr + max file_size mem_size)\<close>;
  and the two halves of the load postcondition for a file \<open>f\<close> and a memory \<open>m\<close>.
\<close>


definition loadable :: "Elf32_Phdr \<Rightarrow> bool" where
  "loadable ph \<longleftrightarrow> p_type ph = PT_LOAD \<and> p_memsz ph \<noteq> 0"

definition seg_range :: "Elf32_Phdr \<Rightarrow> u32 set" where
  "seg_range ph = {p_vaddr ph + of_nat k | k. k < unat (p_memsz ph)}"

definition seg_span :: "Elf32_Phdr \<Rightarrow> u32 set" where
  "seg_span ph = {p_vaddr ph + of_nat k | k. k < max (unat (p_filesz ph)) (unat (p_memsz ph))}"



text \<open>
  The \<open>PT_LOAD\<close> headers among the program headers at the indices \<open>is\<close> that can be
  read, in table order; and the segment-info entry a loaded header leaves behind.
\<close>

definition load_headers :: "mimi_loader_config \<Rightarrow> Elf32_Ehdr \<Rightarrow> nat list \<Rightarrow> Elf32_Phdr list" where
  "load_headers config ehdr is =
     filter (\<lambda>ph. p_type ph = PT_LOAD) (List.map_filter (read_phdr (io config) ehdr) is)"

definition segment_info_of :: "Elf32_Phdr \<Rightarrow> mimi_segment_info" where
  "segment_info_of ph =
     \<lparr>seg_vaddr = p_vaddr ph, seg_size = p_memsz ph, seg_flags = p_flags ph, loaded = True\<rparr>"

text \<open>The status of the header read, header validation and first pass.\<close>

definition first_pass_status :: "mimi_loader_config \<Rightarrow> mimi_err" where
  "first_pass_status config =
    (case read_ehdr (io config) of
       None \<Rightarrow> MIMI_ERR_READ
     | Some ehdr \<Rightarrow>
         if mimi_elf_validate_header ehdr \<noteq> MIMI_OK then mimi_elf_validate_header ehdr
         else (case pass1 config ehdr [0 ..< min (unat (e_phnum ehdr)) MIMI_MAX_SEGMENTS] pass1_init of
                 (err1, st) \<Rightarrow>
                   if err1 \<noteq> MIMI_OK then err1
                   else if loadable_count st = 0 then MIMI_ERR_NO_LOADABLE else MIMI_OK))"

section \<open>Header count boundary\<close>

text \<open>
  C9. With every other check of \<open>mimi_elf_validate_header\<close> passing, a header with
  \<open>e_phnum = 64\<close> is accepted and one with \<open>e_phnum = 65\<close> is rejected with
  \<open>MIMI_ERR_TOO_MANY_PHDRS\<close>.  The count check is the last one: that code is returned
  exactly when every other check passes and the count exceeds 64, so no earlier check can
  mask it.
\<close>

theorem phnum_boundary:
  "(ehdr_other_checks ehdr \<longrightarrow>
      mimi_elf_validate_header (ehdr\<lparr>e_phnum := 64\<rparr>) = MIMI_OK \<and>
      mimi_elf_validate_header (ehdr\<lparr>e_phnum := 65\<rparr>) = MIMI_ERR_TOO_MANY_PHDRS) \<and>
   (mimi_elf_validate_header ehdr = MIMI_ERR_TOO_MANY_PHDRS \<longleftrightarrow>
      ehdr_other_checks ehdr \<and> e_phnum ehdr > 64)"
  by (auto simp: ehdr_other_checks_def mimi_elf_validate_header_def)

theorem phnum_boundary_witness:
  "ehdr_other_checks (ehdr_n 1) \<and>
   mimi_elf_validate_header (ehdr_n 64) = MIMI_OK \<and>
   mimi_elf_validate_header (ehdr_n 65) = MIMI_ERR_TOO_MANY_PHDRS"
proof -
  have h: "ehdr_other_checks (ehdr_n 1)"
    by (simp add: ehdr_other_checks_def ehdr_n_def EI_MAG0_def EI_MAG1_def EI_MAG2_def EI_MAG3_def
      EI_CLASS_def EI_DATA_def EI_VERSION_def ELFMAG0_def ELFMAG1_def ELFMAG2_def ELFMAG3_def
      ELFCLASS32_def ELFDATA2LSB_def EV_CURRENT_def ET_EXEC_def EM_ARM_def sizeof_Phdr_def)
  have e: "(ehdr_n 1)\<lparr>e_phnum := 64\<rparr> = ehdr_n 64" "(ehdr_n 1)\<lparr>e_phnum := 65\<rparr> = ehdr_n 65"
    by (simp_all add: ehdr_n_def)
  show ?thesis using h phnum_boundary [of "ehdr_n 1"] by (simp add: e)
qed

section \<open>Post-load entry validation\<close>

text \<open>
  C7. On a load result whose status is \<open>MIMI_OK\<close>, \<open>mimi_elf_validate_loaded\<close> returns
  \<open>MIMI_OK\<close> if and only if \<open>load_base \<le> entry < load_end\<close>; whether any segment is
  flagged executable plays no part.  Hence whenever post-load validation returns
  \<open>MIMI_OK\<close>, the load had succeeded and \<open>load_base \<le> entry < load_end\<close> holds.
\<close>

theorem validate_loaded_entry:
  "(status result = MIMI_OK \<longrightarrow>
      (mimi_elf_validate_loaded result = MIMI_OK \<longleftrightarrow>
         load_base result \<le> entry result \<and> entry result < load_end result)) \<and>
   (mimi_elf_validate_loaded result = MIMI_OK \<longrightarrow>
      status result = MIMI_OK \<and> load_base result \<le> entry result \<and> entry result < load_end result)"
  by (auto simp: mimi_elf_validate_loaded_def Let_def)

theorem validate_loaded_entry_witness:
  "status (result_init\<lparr>entry := 0x20000001, load_base := 0x20000000, load_end := 0x20000200\<rparr>) = MIMI_OK \<and>
   mimi_elf_validate_loaded
     (result_init\<lparr>entry := 0x20000001, load_base := 0x20000000, load_end := 0x20000200\<rparr>) = MIMI_OK \<and>
   (0x20000000 :: u32) \<le> 0x20000001 \<and> (0x20000001 :: u32) < 0x20000200"
  using validate_loaded_entry
    [of "result_init\<lparr>entry := 0x20000001, load_base := 0x20000000, load_end := 0x20000200\<rparr>"]
  by (simp add: result_init_def word_le_nat_alt word_less_nat_alt)

section \<open>The header CRC of the handoff descriptor\<close>

lemma crc_round_spec: "crc_round crc = crc32_spec_bit crc"
proof (cases "odd crc")
  case True
  then have "crc AND 1 = 1" by (simp add: and_one_eq mod_2_eq_odd)
  then show ?thesis using True by (simp add: crc_round_def crc32_spec_bit_def)
next
  case False
  then have "crc AND 1 = 0" by (simp add: and_one_eq mod_2_eq_odd)
  then show ?thesis using False by (simp add: crc_round_def crc32_spec_bit_def)
qed

lemma crc_loop_fold:
  "crc_loop bs crc = fold (\<lambda>b crc. (crc32_spec_bit ^^ 8) (crc XOR ucast b)) bs crc"
proof -
  have "crc_round = crc32_spec_bit" by (rule ext) (rule crc_round_spec)
  then show ?thesis by (induction bs arbitrary: crc) (simp_all add: crc_byte_def)
qed

lemma not_xor_ones: "NOT (x::u32) = x XOR 0xFFFFFFFF"
proof -
  have "(0xFFFFFFFF::u32) = - 1" by simp
  then show ?thesis by (simp only: bit.xor_one_right)
qed

lemma mimi_crc32_spec: "mimi_crc32 data len = crc32_spec (take len data)"
  unfolding mimi_crc32_def crc32_spec_def crc_loop_fold by (rule not_xor_ones)

text \<open>The check value of CRC-32: the ASCII digits \<open>123456789\<close> give \<open>0xCBF43926\<close>.\<close>

lemma funpow8: "(f ^^ 8) x = f (f (f (f (f (f (f (f x)))))))"
  by (simp add: eval_nat_numeral)

lemma crc_check_value:
  "mimi_crc32 [0x31, 0x32, 0x33, 0x34, 0x35, 0x36, 0x37, 0x38, 0x39] 9 = 0xCBF43926"
  by (simp add: mimi_crc32_def crc_byte_def funpow8 crc_round_def)

text \<open>
  C8. For every load result, platform info, image name and clock reading, the
  \<open>header_crc\<close> field that \<open>mimi_handoff_build\<close> stores equals the CRC-32 (reflected
  polynomial \<open>0xEDB88320\<close>, initial and final XOR \<open>0xFFFFFFFF\<close>) of the first 16 bytes
  of the descriptor with the \<open>header_crc\<close> field taken as zero.
\<close>

theorem handoff_header_crc:
  "header_crc (mimi_handoff_build load_result platform image_name now) =
     crc32_spec (take 16 (handoff_header_bytes
        ((mimi_handoff_build load_result platform image_name now)\<lparr>header_crc := 0\<rparr>)))"
  by (simp add: mimi_handoff_build_def Let_def mimi_crc32_spec add_region_def)

section \<open>Fallback policy\<close>

text \<open>
  C6, as stated, fails: when opening the primary path fails with an I/O error (not with
  the not-found error), the fallback path is opened all the same.
\<close>

theorem fallback_counterexample:
  "fopen_io_error ''/boot/kernel.elf'' = FAT32_ERR_IO \<and>
   fst (main_open_image fopen_io_error config_default) =
     [''/boot/kernel.elf'', ''/boot/recovery.elf'']"
  by (simp add: main_open_image_def mimi_config_boot_attempt_def mimi_config_get_image_def
      Let_def config_default_def fopen_io_error_def word_le_nat_alt)

text \<open>
  C6, amended.  Orchestration calls \<open>fat32_open\<close> once on the selected path and at most
  once more, on the fallback path; the second call is made exactly when the first one
  fails, with whatever error, and a non-empty fallback path is configured.
\<close>

theorem fallback_policy:
  "main_open_image fopen config = (trace, outcome) \<Longrightarrow>
   mimi_config_get_image (mimi_config_boot_attempt config) = Some first_path \<Longrightarrow>
     (trace = [first_path] \<or> trace = [first_path, fallback_path config]) \<and>
     (trace = [first_path, fallback_path config] \<longleftrightarrow>
        fopen first_path \<noteq> FAT32_OK \<and> has_fallback config \<and> fallback_path config \<noteq> [])"
  by (auto simp: main_open_image_def mimi_config_boot_attempt_def Let_def split: if_splits)

theorem fallback_policy_witness:
  "main_open_image fopen_io_error config_default =
     ([''/boot/kernel.elf'', ''/boot/recovery.elf''], Inr ''/boot/recovery.elf'') \<and>
   mimi_config_get_image (mimi_config_boot_attempt config_default) = Some ''/boot/kernel.elf'' \<and>
   fopen_io_error ''/boot/kernel.elf'' \<noteq> FAT32_OK \<and> has_fallback config_default \<and>
   fallback_path config_default = ''/boot/recovery.elf''"
proof -
  have h1: "main_open_image fopen_io_error config_default =
     ([''/boot/kernel.elf'', ''/boot/recovery.elf''], Inr ''/boot/recovery.elf'')"
    by (simp add: main_open_image_def mimi_config_boot_attempt_def mimi_config_get_image_def
      Let_def config_default_def fopen_io_error_def word_le_nat_alt)
  have h2: "mimi_config_get_image (mimi_config_boot_attempt config_default) = Some ''/boot/kernel.elf''"
    by (simp add: mimi_config_boot_attempt_def mimi_config_get_image_def config_default_def
      word_le_nat_alt)
  show ?thesis using h1 h2 fallback_policy [OF h1 h2]
    by (simp add: config_default_def fopen_io_error_def)
qed

section \<open>Memory helpers: what is written and what is left alone\<close>


lemma of_nat_inj32: "k < 2 ^ 32 \<Longrightarrow> k' < 2 ^ 32 \<Longrightarrow> (of_nat k :: u32) = of_nat k' \<longleftrightarrow> k = k'"
  by (simp add: word_of_nat_eq_iff take_bit_nat_eq_self)

lemma addr_inj32:
  "k < 2 ^ 32 \<Longrightarrow> k' < 2 ^ 32 \<Longrightarrow> (d :: u32) + of_nat k = d + of_nat k' \<longleftrightarrow> k = k'"
  by (simp add: of_nat_inj32)

lemma unat_lt32: "unat (w :: u32) < 2 ^ 32"
  using unsigned_less [of w, where 'a = nat] by simp

lemma memcpy_outside:
  "(\<And>k. k < length bs \<Longrightarrow> a \<noteq> d + of_nat k) \<Longrightarrow> mimi_memcpy m d bs a = m a"
proof (induction bs arbitrary: m d)
  case Nil
  then show ?case by simp
next
  case (Cons b bs)
  have "a \<noteq> d" using Cons.prems [of 0] by simp
  moreover have "a \<noteq> (d + 1) + of_nat k" if "k < length bs" for k
    using Cons.prems [of "Suc k"] that by (simp add: add.assoc)
  ultimately have "mimi_memcpy (m(d := b)) (d + 1) bs a = (m(d := b)) a"
    by (intro Cons.IH) auto
  with \<open>a \<noteq> d\<close> show ?case by simp
qed

lemma memcpy_inside:
  "length bs \<le> 2 ^ 32 \<Longrightarrow> k < length bs \<Longrightarrow> mimi_memcpy m d bs (d + of_nat k) = bs ! k"
proof (induction bs arbitrary: m d k)
  case Nil
  then show ?case by simp
next
  case (Cons b bs)
  show ?case
  proof (cases k)
    case 0
    have "d \<noteq> (d + 1) + of_nat j" if "j < length bs" for j
    proof -
      have "Suc j < 2 ^ 32" using that Cons.prems(1) by simp
      then have "d + of_nat 0 \<noteq> d + of_nat (Suc j)"
        by (subst addr_inj32) simp_all
      then show ?thesis by (simp add: add.assoc)
    qed
    then have "mimi_memcpy (m(d := b)) (d + 1) bs d = (m(d := b)) d"
      by (intro memcpy_outside) auto
    then show ?thesis using 0 by simp
  next
    case (Suc k')
    then have "mimi_memcpy (m(d := b)) (d + 1) bs (d + 1 + of_nat k') = bs ! k'"
      using Cons.prems by (intro Cons.IH) auto
    then show ?thesis using Suc by (simp add: add.assoc)
  qed
qed

lemma memset_outside:
  "(\<And>k. k < n \<Longrightarrow> a \<noteq> d + of_nat k) \<Longrightarrow> mimi_memset m d v n a = m a"
proof (induction n arbitrary: m d)
  case 0
  then show ?case by simp
next
  case (Suc n)
  have "a \<noteq> d" using Suc.prems [of 0] by simp
  moreover have "a \<noteq> (d + 1) + of_nat k" if "k < n" for k
    using Suc.prems [of "Suc k"] that by (simp add: add.assoc)
  ultimately have "mimi_memset (m(d := v)) (d + 1) v n a = (m(d := v)) a"
    by (intro Suc.IH) auto
  with \<open>a \<noteq> d\<close> show ?case by simp
qed


lemma memcmp_zero_iff:
  "length bs \<le> 2 ^ 32 \<Longrightarrow> mimi_memcmp m a bs = 0 \<longleftrightarrow> (\<forall>k < length bs. m (a + of_nat k) = bs ! k)"
proof (induction bs arbitrary: a)
  case Nil
  then show ?case by simp
next
  case (Cons b bs)
  have "(\<forall>k < Suc (length bs). m (a + of_nat k) = (b # bs) ! k) \<longleftrightarrow>
        m a = b \<and> (\<forall>k < length bs. m (a + 1 + of_nat k) = bs ! k)"
    by (auto simp: less_Suc_eq_0_disj add.assoc)
  then show ?case using Cons by simp
qed

lemma io_reads_fileD:
  assumes "io_reads_file rd f" "rd off n = Some bs" "length bs = unat n" "n \<noteq> 0"
  shows "unat off + unat n \<le> length f" and "\<And>k. k < unat n \<Longrightarrow> bs ! k = f ! (unat off + k)"
proof -
  have bs: "bs = take (unat n) (drop (unat off) f)"
    using assms by (auto simp: io_reads_file_def)
  have "length (take (unat n) (drop (unat off) f)) = unat n" using bs assms(3) by simp
  moreover have "0 < unat n" using assms(4) by (simp add: unat_gt_0)
  ultimately show le: "unat off + unat n \<le> length f" by (simp add: min_def split: if_splits)
  show "bs ! k = f ! (unat off + k)" if "k < unat n" for k
    using that bs le by simp
qed

lemma chunk_facts:
  assumes "r \<noteq> 0"
  shows "0 < unat (chunk_of r)" "unat (chunk_of r) \<le> unat r"
    "unat (r - chunk_of r) = unat r - unat (chunk_of r)"
proof -
  show "0 < unat (chunk_of r)" using chunk_of_pos [OF assms] by (simp add: unat_gt_0)
  show "unat (chunk_of r) \<le> unat r" using chunk_of_le [of r] by (simp add: word_le_nat_alt)
  show "unat (r - chunk_of r) = unat r - unat (chunk_of r)"
    using chunk_of_le [of r] by (simp add: unat_sub)
qed

declare copy_loop.simps [simp del] verify_loop.simps [simp del]

lemma copy_loop_0 [simp]: "copy_loop rd fo d 0 m bc = (MIMI_OK, m, d, bc)"
  by (subst copy_loop.simps) simp

lemma copy_loop_step:
  "r \<noteq> 0 \<Longrightarrow> copy_loop rd fo d r m bc =
     (case rd fo (chunk_of r) of
        None \<Rightarrow> (MIMI_ERR_READ, m, d, bc)
      | Some buffer \<Rightarrow>
          if length buffer \<noteq> unat (chunk_of r) then (MIMI_ERR_READ, m, d, bc)
          else copy_loop rd (fo + chunk_of r) (d + chunk_of r) (r - chunk_of r)
                 (mimi_memcpy m d buffer) (bc + chunk_of r))"
  by (subst copy_loop.simps) (simp add: word_greater_zero_iff)

lemma copy_loop_frame:
  "copy_loop rd fo d r m bc = (err, m', d', bc') \<Longrightarrow>
   (\<And>k. k < unat r \<Longrightarrow> a \<noteq> d + of_nat k) \<Longrightarrow> m' a = m a"
proof (induction rd fo d r m bc rule: copy_loop.induct)
  case (1 rd fo d r m bc)
  show ?case
  proof (cases "r = 0")
    case True
    with "1.prems"(1) show ?thesis by simp
  next
    case False
    note r = chunk_facts [OF False]
    let ?c = "chunk_of r"
    show ?thesis
    proof (cases "rd fo ?c")
      case None
      with "1.prems"(1) False show ?thesis by (simp add: copy_loop_step)
    next
      case (Some b)
      show ?thesis
      proof (cases "length b = unat ?c")
        case False
        with "1.prems"(1) Some \<open>r \<noteq> 0\<close> show ?thesis by (simp add: copy_loop_step)
      next
        case True
        have rec: "copy_loop rd (fo + ?c) (d + ?c) (r - ?c) (mimi_memcpy m d b) (bc + ?c) = (err, m', d', bc')"
          using "1.prems"(1) Some True \<open>r \<noteq> 0\<close> by (simp add: copy_loop_step)
        have out: "a \<noteq> d + ?c + of_nat k" if "k < unat (r - ?c)" for k
        proof -
          have "unat ?c + k < unat r" using that r by simp
          then have "a \<noteq> d + of_nat (unat ?c + k)" by (rule "1.prems"(2))
          then show ?thesis by (simp add: add.assoc)
        qed
        have "m' a = mimi_memcpy m d b a"
          using \<open>r \<noteq> 0\<close> Some True rec out
          by (intro "1.IH") (auto simp: word_greater_zero_iff)
        also have "\<dots> = m a"
        proof (rule memcpy_outside)
          fix k assume "k < length b"
          then have "k < unat r" using True r by simp
          then show "a \<noteq> d + of_nat k" by (rule "1.prems"(2))
        qed
        finally show ?thesis .
      qed
    qed
  qed
qed

lemma copy_loop_status:
  "copy_loop rd fo d r m bc = (err, m', d', bc') \<Longrightarrow>
   (err = MIMI_OK \<and> d' = d + r \<and> bc' = bc + r) \<or> err = MIMI_ERR_READ"
proof (induction rd fo d r m bc rule: copy_loop.induct)
  case (1 rd fo d r m bc)
  show ?case
  proof (cases "r = 0")
    case True
    with "1.prems"(1) show ?thesis by simp
  next
    case False
    let ?c = "chunk_of r"
    show ?thesis
    proof (cases "rd fo ?c")
      case None
      with "1.prems"(1) False show ?thesis by (simp add: copy_loop_step)
    next
      case (Some b)
      show ?thesis
      proof (cases "length b = unat ?c")
        case False
        with "1.prems"(1) Some \<open>r \<noteq> 0\<close> show ?thesis by (simp add: copy_loop_step)
      next
        case True
        have rec: "copy_loop rd (fo + ?c) (d + ?c) (r - ?c) (mimi_memcpy m d b) (bc + ?c) = (err, m', d', bc')"
          using "1.prems"(1) Some True \<open>r \<noteq> 0\<close> by (simp add: copy_loop_step)
        have "(err = MIMI_OK \<and> d' = d + ?c + (r - ?c) \<and> bc' = bc + ?c + (r - ?c)) \<or> err = MIMI_ERR_READ"
          using \<open>r \<noteq> 0\<close> Some True rec
          by (intro "1.IH") (auto simp: word_greater_zero_iff)
        then show ?thesis by auto
      qed
    qed
  qed
qed

lemma copy_loop_content:
  "copy_loop rd fo d r m bc = (MIMI_OK, m', d', bc') \<Longrightarrow> io_reads_file rd f \<Longrightarrow>
   (\<forall>k < unat r. m' (d + of_nat k) = f ! (unat fo + k)) \<and> (r \<noteq> 0 \<longrightarrow> unat fo + unat r \<le> length f)"
proof (induction rd fo d r m bc rule: copy_loop.induct)
  case (1 rd fo d r m bc)
  show ?case
  proof (cases "r = 0")
    case True
    then show ?thesis by simp
  next
    case False
    note r = chunk_facts [OF False]
    let ?c = "chunk_of r"
    have c0: "?c \<noteq> 0" using False by (rule chunk_of_pos)
    show ?thesis
    proof (cases "rd fo ?c")
      case None
      with "1.prems"(1) False show ?thesis by (simp add: copy_loop_step)
    next
      case (Some b)
      show ?thesis
      proof (cases "length b = unat ?c")
        case False
        with "1.prems"(1) Some \<open>r \<noteq> 0\<close> show ?thesis by (simp add: copy_loop_step)
      next
        case True
        have rec: "copy_loop rd (fo + ?c) (d + ?c) (r - ?c) (mimi_memcpy m d b) (bc + ?c) = (MIMI_OK, m', d', bc')"
          using "1.prems"(1) Some True \<open>r \<noteq> 0\<close> by (simp add: copy_loop_step)
        note rdf = io_reads_fileD [OF "1.prems"(2) Some True c0]
        have flen: "length f < 2 ^ 32" using "1.prems"(2) by (simp add: io_reads_file_def)
        have ufo: "unat (fo + ?c) = unat fo + unat ?c"
          using rdf(1) flen by (simp add: unat_word_ariths)
        have IH: "(\<forall>k < unat (r - ?c). m' (d + ?c + of_nat k) = f ! (unat (fo + ?c) + k)) \<and>
                  (r - ?c \<noteq> 0 \<longrightarrow> unat (fo + ?c) + unat (r - ?c) \<le> length f)"
          using \<open>r \<noteq> 0\<close> Some True rec "1.prems"(2)
          by (intro "1.IH") (auto simp: word_greater_zero_iff)
        have rlt: "unat r < 2 ^ 32" by (rule unat_lt32)
        have lenb: "length b \<le> 2 ^ 32" using True r rlt by simp
        have content: "m' (d + of_nat k) = f ! (unat fo + k)" if k: "k < unat r" for k
        proof (cases "k < unat ?c")
          case True
          have "m' (d + of_nat k) = mimi_memcpy m d b (d + of_nat k)"
          proof (rule copy_loop_frame [OF rec])
            fix j assume j: "j < unat (r - ?c)"
            have "unat ?c + j < 2 ^ 32" using j r rlt by simp
            moreover have "k < 2 ^ 32" using k rlt by simp
            moreover have "k \<noteq> unat ?c + j" using True by simp
            ultimately have "d + of_nat k \<noteq> d + of_nat (unat ?c + j)"
              by (simp add: of_nat_inj32 del: of_nat_add)
            then show "d + of_nat k \<noteq> d + ?c + of_nat j" by (simp add: add.assoc)
          qed
          also have "\<dots> = b ! k" using True \<open>length b = unat ?c\<close> lenb by (intro memcpy_inside) simp_all
          also have "\<dots> = f ! (unat fo + k)" using True by (rule rdf(2))
          finally show ?thesis .
        next
          case False
          define j where "j = k - unat ?c"
          have j: "j < unat (r - ?c)" "k = unat ?c + j" using False k r by (simp_all add: j_def)
          have "m' (d + ?c + of_nat j) = f ! (unat (fo + ?c) + j)" using IH j(1) by blast
          then show ?thesis by (simp add: j(2) ufo add.assoc)
        qed
        have bound: "unat fo + unat r \<le> length f"
        proof (cases "r - ?c = 0")
          case True
          then have "r = ?c" by simp
          then show ?thesis using rdf(1) by simp
        next
          case False
          with IH have "unat (fo + ?c) + unat (r - ?c) \<le> length f" by blast
          then show ?thesis using r by (simp add: ufo)
        qed
        show ?thesis using content bound by blast
      qed
    qed
  qed
qed


section \<open>One segment: frame, contents, status\<close>

lemma verify_loop_0 [simp]: "verify_loop rd fo d 0 m = MIMI_OK"
  by (subst verify_loop.simps) simp

lemma verify_loop_step:
  "r \<noteq> 0 \<Longrightarrow> verify_loop rd fo d r m =
     (case rd fo (chunk_of r) of
        None \<Rightarrow> MIMI_ERR_READ
      | Some buffer \<Rightarrow>
          if length buffer \<noteq> unat (chunk_of r) then MIMI_ERR_READ
          else if mimi_memcmp m d buffer \<noteq> 0 then MIMI_ERR_LOAD_FAILED
          else verify_loop rd (fo + chunk_of r) (d + chunk_of r) (r - chunk_of r) m)"
  by (subst verify_loop.simps) (simp add: word_greater_zero_iff)

lemma verify_loop_status:
  "verify_loop rd fo d r m \<in> {MIMI_OK, MIMI_ERR_READ, MIMI_ERR_LOAD_FAILED}"
proof (induction rd fo d r m rule: verify_loop.induct)
  case (1 rd fo d r m)
  show ?case
  proof (cases "r = 0")
    case True
    then show ?thesis by simp
  next
    case False
    then show ?thesis
      using "1.IH" by (auto simp: verify_loop_step word_greater_zero_iff split: option.splits)
  qed
qed

lemma unat_sub_less: "(b::u32) < a \<Longrightarrow> unat (a - b) = unat a - unat b"
  by (rule unat_sub) simp

lemma load_segment_frame:
  assumes "mimi_load_segment config ph bc bz m = (err, info, m', bc', bz')"
    and "p_memsz ph \<noteq> 0 \<Longrightarrow> a \<notin> seg_span ph"
  shows "m' a = m a"
proof (cases "p_memsz ph = 0 \<or>
    (validate_addresses config \<and>
      \<not> mimi_addr_valid (p_vaddr ph) (p_memsz ph) (MIMI_MEM_WRITE OR MIMI_MEM_RAM) config)")
  case True
  with assms(1) show ?thesis by (auto simp: mimi_load_segment_def Let_def split: if_splits)
next
  case False
  note nv = False
  then have nz: "p_memsz ph \<noteq> 0" by simp
  have out: "a \<noteq> p_vaddr ph + of_nat k" if "k < max (unat (p_filesz ph)) (unat (p_memsz ph))" for k
    using assms(2) [OF nz] that by (auto simp: seg_span_def)
  obtain e1 m1 d1 bc1 where
    cl: "copy_loop (io config) (p_offset ph) (p_vaddr ph) (p_filesz ph) m bc = (e1, m1, d1, bc1)"
    by (metis prod_cases4)
  have m1: "m1 a = m a"
    by (rule copy_loop_frame [OF cl]) (simp add: out)
  show ?thesis
  proof (cases "e1 = MIMI_OK")
    case False
    with assms(1) nv cl m1 show ?thesis by (auto simp: mimi_load_segment_def Let_def split: if_splits)
  next
    case True
    then have d1: "d1 = p_vaddr ph + p_filesz ph" using copy_loop_status [OF cl] by auto
    have m2: "mimi_memset m1 d1 0 (unat (p_memsz ph - p_filesz ph)) a = m1 a"
      if gt: "p_memsz ph > p_filesz ph"
    proof (rule memset_outside)
      fix k assume "k < unat (p_memsz ph - p_filesz ph)"
      then have "unat (p_filesz ph) + k < unat (p_memsz ph)"
        using gt by (simp add: unat_sub_less)
      then have "a \<noteq> p_vaddr ph + of_nat (unat (p_filesz ph) + k)" by (intro out) simp
      then show "a \<noteq> d1 + of_nat k" by (simp add: d1 add.assoc)
    qed
    have "m' = (if zero_bss config \<and> p_memsz ph > p_filesz ph
                then mimi_memset m1 d1 0 (unat (p_memsz ph - p_filesz ph)) else m1)"
      using assms(1) nv cl True by (auto simp: mimi_load_segment_def Let_def split: if_splits)
    then show ?thesis using m1 m2 by simp
  qed
qed


lemma load_segment_status:
  assumes "mimi_load_segment config ph bc bz m = (err, info, m', bc', bz')"
  shows "err \<in> {MIMI_OK, MIMI_ERR_ADDR_INVALID, MIMI_ERR_READ, MIMI_ERR_LOAD_FAILED}"
    and "err = MIMI_OK \<Longrightarrow>
           info = \<lparr>seg_vaddr = p_vaddr ph, seg_size = p_memsz ph, seg_flags = p_flags ph, loaded = True\<rparr>"
proof -
  obtain e1 m1 d1 bc1 where
    cl: "copy_loop (io config) (p_offset ph) (p_vaddr ph) (p_filesz ph) m bc = (e1, m1, d1, bc1)"
    by (metis prod_cases4)
  note st = copy_loop_status [OF cl]
  note vs = verify_loop_status [of "io config" "p_offset ph" "p_vaddr ph" "p_filesz ph"]
  show "err \<in> {MIMI_OK, MIMI_ERR_ADDR_INVALID, MIMI_ERR_READ, MIMI_ERR_LOAD_FAILED}"
    using assms cl st vs
    by (auto simp: mimi_load_segment_def Let_def split: if_splits)
  show "err = MIMI_OK \<Longrightarrow>
           info = \<lparr>seg_vaddr = p_vaddr ph, seg_size = p_memsz ph, seg_flags = p_flags ph, loaded = True\<rparr>"
    using assms cl by (auto simp: mimi_load_segment_def Let_def split: if_splits)
qed


section \<open>The two passes\<close>


lemma pass1_Cons_OK:
  assumes "pass1 config ehdr (i # is) st = (MIMI_OK, st')"
  obtains (skip) ph where "read_phdr (io config) ehdr i = Some ph" "\<not> loadable ph"
      "pass1 config ehdr is st = (MIMI_OK, st')"
  | (accept) ph where "read_phdr (io config) ehdr i = Some ph" "loadable ph"
      "validate_addresses config \<longrightarrow>
         mimi_addr_valid (p_vaddr ph) (p_memsz ph) (MIMI_MEM_WRITE OR MIMI_MEM_RAM) config"
      "\<forall>(v, msz) \<in> set (seg_info st). \<not> mimi_ranges_overlap (p_vaddr ph) (p_memsz ph) v msz"
      "pass1 config ehdr is (pass1_accept st ph) = (MIMI_OK, st')"
  using assms
  by (auto simp: loadable_def list_ex_iff split: option.splits if_splits)

lemma seg_info_accept [simp]:
  "seg_info (pass1_accept st ph) = seg_info st @ [(p_vaddr ph, p_memsz ph)]"
  by (simp add: pass1_accept_def)

lemma pass1_ok_reads:
  "pass1 config ehdr is st = (MIMI_OK, st') \<Longrightarrow> i \<in> set is \<Longrightarrow>
     \<exists>ph. read_phdr (io config) ehdr i = Some ph"
proof (induction "is" arbitrary: st)
  case Nil
  then show ?case by simp
next
  case (Cons j js)
  from Cons.prems(1) show ?case
  proof (cases rule: pass1_Cons_OK)
    case (skip ph)
    then show ?thesis using Cons.IH [of st] Cons.prems(2) by auto
  next
    case (accept ph)
    then show ?thesis using Cons.IH [of "pass1_accept st ph"] Cons.prems(2) by auto
  qed
qed

lemma pass1_ok_mono:
  "pass1 config ehdr is st = (MIMI_OK, st') \<Longrightarrow> set (seg_info st) \<subseteq> set (seg_info st')"
proof (induction "is" arbitrary: st)
  case Nil
  then show ?case by simp
next
  case (Cons j js)
  from Cons.prems(1) show ?case
  proof (cases rule: pass1_Cons_OK)
    case (skip ph)
    then show ?thesis using Cons.IH [of st] by auto
  next
    case (accept ph)
    then show ?thesis using Cons.IH [of "pass1_accept st ph"] by auto
  qed
qed

lemma pass1_ok_checked:
  "pass1 config ehdr is st = (MIMI_OK, st') \<Longrightarrow> i \<in> set is \<Longrightarrow>
   read_phdr (io config) ehdr i = Some ph \<Longrightarrow> loadable ph \<Longrightarrow>
     (validate_addresses config \<longrightarrow>
        mimi_addr_valid (p_vaddr ph) (p_memsz ph) (MIMI_MEM_WRITE OR MIMI_MEM_RAM) config) \<and>
     (\<forall>(v, msz) \<in> set (seg_info st). \<not> mimi_ranges_overlap (p_vaddr ph) (p_memsz ph) v msz)"
proof (induction "is" arbitrary: st)
  case Nil
  then show ?case by simp
next
  case (Cons j js)
  from Cons.prems(1) show ?case
  proof (cases rule: pass1_Cons_OK)
    case (skip ph')
    then show ?thesis using Cons.IH [of st] Cons.prems(2-) by auto
  next
    case (accept ph')
    show ?thesis
    proof (cases "i = j")
      case True
      then show ?thesis using accept Cons.prems(3) by auto
    next
      case False
      then have "i \<in> set js" using Cons.prems(2) by simp
      from Cons.IH [OF accept(5) this Cons.prems(3,4)] show ?thesis by auto
    qed
  qed
qed

lemma pass1_ok_pairs:
  "pass1 config ehdr is st = (MIMI_OK, st') \<Longrightarrow> p < q \<Longrightarrow> q < length is \<Longrightarrow>
   read_phdr (io config) ehdr (is ! p) = Some ph1 \<Longrightarrow> loadable ph1 \<Longrightarrow>
   read_phdr (io config) ehdr (is ! q) = Some ph2 \<Longrightarrow> loadable ph2 \<Longrightarrow>
     \<not> mimi_ranges_overlap (p_vaddr ph2) (p_memsz ph2) (p_vaddr ph1) (p_memsz ph1)"
proof (induction "is" arbitrary: st p q)
  case Nil
  then show ?case by simp
next
  case (Cons j js)
  obtain q' where q: "q = Suc q'" "q' < length js"
    using Cons.prems(2,3) by (cases q) auto
  from Cons.prems(1) show ?case
  proof (cases rule: pass1_Cons_OK)
    case (skip ph)
    show ?thesis
    proof (cases p)
      case 0
      then show ?thesis using skip Cons.prems(4,5) by simp
    next
      case (Suc p')
      then show ?thesis
        using Cons.IH [OF skip(3), of p' q'] Cons.prems q by simp
    qed
  next
    case (accept ph)
    show ?thesis
    proof (cases p)
      case 0
      then have ph1: "ph1 = ph" using accept(1) Cons.prems(4) by simp
      have "js ! q' \<in> set js" using q by simp
      from pass1_ok_checked [OF accept(5) this] Cons.prems(6,7) q
      show ?thesis by (auto simp: ph1)
    next
      case (Suc p')
      then show ?thesis
        using Cons.IH [OF accept(5), of p' q'] Cons.prems q by simp
    qed
  qed
qed

lemma pass1_ok_count:
  "pass1 config ehdr is st = (MIMI_OK, st') \<Longrightarrow>
   length (seg_info st') = length (seg_info st) +
     length (filter (\<lambda>i. \<exists>ph. read_phdr (io config) ehdr i = Some ph \<and> loadable ph) is)"
proof (induction "is" arbitrary: st)
  case Nil
  then show ?case by simp
next
  case (Cons j js)
  from Cons.prems(1) show ?case
  proof (cases rule: pass1_Cons_OK)
    case (skip ph)
    then show ?thesis using Cons.IH [of st] by auto
  next
    case (accept ph)
    then show ?thesis using Cons.IH [of "pass1_accept st ph"] by auto
  qed
qed


lemma addr_in_region_no_wrap:
  "mimi_addr_in_region addr sz region \<Longrightarrow> unat addr + unat sz < 2 ^ 32"
proof -
  assume "mimi_addr_in_region addr sz region"
  then have "\<not> addr + sz < addr" by (auto simp: mimi_addr_in_region_def split: if_splits)
  then have "addr \<le> addr + sz" by simp
  then show ?thesis by (simp add: no_plus_overflow_unat_size word_size)
qed

lemma addr_valid_loop_no_wrap:
  "addr_valid_loop addr sz fl rs \<Longrightarrow> unat addr + unat sz < 2 ^ 32"
  by (induction rs) (auto dest: addr_in_region_no_wrap split: if_splits)

lemma addr_valid_no_wrap:
  "mimi_addr_valid addr sz fl config \<Longrightarrow> unat addr + unat sz < 2 ^ 32"
  by (auto simp: mimi_addr_valid_def dest: addr_valid_loop_no_wrap)

lemma addr_valid_loop_region:
  "addr_valid_loop addr sz fl rs \<Longrightarrow>
     \<exists>r \<in> set rs. flags r AND fl = fl \<and> base r \<le> addr \<and> addr + sz \<le> base r + size_r r"
  by (induction rs) (auto simp: mimi_addr_in_region_def Let_def split: if_splits)

lemma no_overlap_disjoint:
  assumes no: "\<not> mimi_ranges_overlap a asz b bsz"
    and wa: "unat a + unat asz < 2 ^ 32" and wb: "unat b + unat bsz < 2 ^ 32"
    and k: "k < unat asz" and j: "j < unat bsz"
  shows "a + of_nat k \<noteq> b + of_nat j"
proof -
  have ea: "unat (a + asz) = unat a + unat asz" using wa by (simp add: unat_word_ariths)
  have eb: "unat (b + bsz) = unat b + unat bsz" using wb by (simp add: unat_word_ariths)
  have "unat b + unat bsz \<le> unat a \<or> unat a + unat asz \<le> unat b"
    using no by (auto simp: mimi_ranges_overlap_def Let_def word_less_nat_alt ea eb not_less)
  moreover have "unat (a + of_nat k) = unat a + k"
    using wa k by (simp add: unat_word_ariths unat_of_nat)
  moreover have "unat (b + of_nat j) = unat b + j"
    using wb j by (simp add: unat_word_ariths unat_of_nat)
  ultimately have "unat (a + of_nat k) \<noteq> unat (b + of_nat j)" using k j by auto
  then show ?thesis by auto
qed

lemma no_overlap_seg_range:
  assumes "\<not> mimi_ranges_overlap (p_vaddr ph2) (p_memsz ph2) (p_vaddr ph1) (p_memsz ph1)"
    and "unat (p_vaddr ph1) + unat (p_memsz ph1) < 2 ^ 32"
    and "unat (p_vaddr ph2) + unat (p_memsz ph2) < 2 ^ 32"
  shows "seg_range ph1 \<inter> seg_range ph2 = {}"
  using no_overlap_disjoint [OF assms(1,3,2)] by (fastforce simp: seg_range_def)


lemma pass2_frame:
  "pass2 config ehdr is k r m = (err, k', r', m') \<Longrightarrow>
   (\<And>i ph. i \<in> set is \<Longrightarrow> read_phdr (io config) ehdr i = Some ph \<Longrightarrow> loadable ph \<Longrightarrow>
      a \<notin> seg_span ph) \<Longrightarrow>
   m' a = m a"
proof (induction "is" arbitrary: k r m)
  case Nil
  then show ?case by simp
next
  case (Cons i js)
  show ?case
  proof (cases "read_phdr (io config) ehdr i")
    case None
    with Cons.prems(1) show ?thesis by simp
  next
    case (Some ph)
    show ?thesis
    proof (cases "p_type ph = PT_LOAD")
      case False
      then have "pass2 config ehdr js k r m = (err, k', r', m')"
        using Cons.prems(1) Some by simp
      then show ?thesis using Cons.prems(2) by (intro Cons.IH) auto
    next
      case True
      show ?thesis
      proof (cases "k \<ge> MIMI_MAX_SEGMENTS")
        case True
        with Cons.prems(1) Some \<open>p_type ph = PT_LOAD\<close> show ?thesis by simp
      next
        case False
        obtain e1 info m1 bc1 bz1 where
          ls: "mimi_load_segment config ph (bytes_copied r) (bytes_zeroed r) m = (e1, info, m1, bc1, bz1)"
          by (metis prod_cases5)
        have m1: "m1 a = m a"
        proof (rule load_segment_frame [OF ls])
          assume "p_memsz ph \<noteq> 0"
          then have "loadable ph" using True by (simp add: loadable_def)
          then show "a \<notin> seg_span ph" using Some by (intro Cons.prems(2) [of i]) auto
        qed
        show ?thesis
        proof (cases "e1 = MIMI_OK")
          case False
          then show ?thesis
            using Cons.prems(1) Some True \<open>\<not> k \<ge> _\<close> ls m1 by (simp add: Let_def)
        next
          case True
          then have "pass2 config ehdr js (Suc k)
              (r\<lparr>segments := (segments r)[k := info], bytes_copied := bc1, bytes_zeroed := bz1\<rparr>) m1
              = (err, k', r', m')"
            using Cons.prems(1) Some \<open>p_type ph = PT_LOAD\<close> \<open>\<not> k \<ge> _\<close> ls by (simp add: Let_def)
          then have "m' a = m1 a" using Cons.prems(2) by (intro Cons.IH) auto
          then show ?thesis using m1 by simp
        qed
      qed
    qed
  qed
qed

lemma pass2_status:
  "pass2 config ehdr is k r m = (err, k', r', m') \<Longrightarrow>
   err \<in> {MIMI_OK, MIMI_ERR_READ, MIMI_ERR_ADDR_INVALID, MIMI_ERR_LOAD_FAILED}"
proof (induction "is" arbitrary: k r m)
  case Nil
  then show ?case by simp
next
  case (Cons i js)
  show ?case
  proof (cases "read_phdr (io config) ehdr i")
    case None
    with Cons.prems(1) show ?thesis by simp
  next
    case (Some ph)
    obtain e1 info m1 bc1 bz1 where
      ls: "mimi_load_segment config ph (bytes_copied r) (bytes_zeroed r) m = (e1, info, m1, bc1, bz1)"
      by (metis prod_cases5)
    note st = load_segment_status(1) [OF ls]
    show ?thesis
      using Cons.prems(1) Some ls st Cons.IH
      by (auto simp: Let_def split: if_splits)
  qed
qed






lemma load_headers_Nil [simp]: "load_headers config ehdr [] = []"
  by (simp add: load_headers_def map_filter_simps)

lemma load_headers_Cons:
  "load_headers config ehdr (i # is) =
     (case read_phdr (io config) ehdr i of
        None \<Rightarrow> load_headers config ehdr is
      | Some ph \<Rightarrow> if p_type ph = PT_LOAD then ph # load_headers config ehdr is
                   else load_headers config ehdr is)"
  by (simp add: load_headers_def map_filter_simps split: option.splits)

lemma pass2_count:
  assumes "pass2 config ehdr is k r m = (MIMI_OK, k', r', m')"
    and "k \<le> MIMI_MAX_SEGMENTS" and "length (segments r) = MIMI_MAX_SEGMENTS"
  shows "k' = min MIMI_MAX_SEGMENTS (k + length (load_headers config ehdr is)) \<and>
         length (segments r') = MIMI_MAX_SEGMENTS \<and>
         (\<forall>j < k' - k. segments r' ! (k + j) = segment_info_of (load_headers config ehdr is ! j)) \<and>
         (\<forall>j < k. segments r' ! j = segments r ! j)"
  using assms
proof (induction "is" arbitrary: k r m)
  case Nil
  then show ?case by simp
next
  case (Cons i js)
  obtain ph where ph: "read_phdr (io config) ehdr i = Some ph"
    using Cons.prems(1) by (cases "read_phdr (io config) ehdr i") auto
  show ?case
  proof (cases "p_type ph = PT_LOAD")
    case False
    then have rest: "pass2 config ehdr js k r m = (MIMI_OK, k', r', m')"
      using Cons.prems(1) ph by simp
    show ?thesis
      using Cons.IH [OF rest Cons.prems(2,3)] ph False by (simp add: load_headers_Cons)
  next
    case True
    show ?thesis
    proof (cases "k \<ge> MIMI_MAX_SEGMENTS")
      case True
      then have "k' = k" "r' = r" using Cons.prems(1) ph \<open>p_type ph = PT_LOAD\<close> by simp_all
      then show ?thesis using True Cons.prems(2,3) by simp
    next
      case False
      obtain e1 info m1 bc1 bz1 where
        ls: "mimi_load_segment config ph (bytes_copied r) (bytes_zeroed r) m = (e1, info, m1, bc1, bz1)"
        by (metis prod_cases5)
      have e1: "e1 = MIMI_OK"
        using Cons.prems(1) ph True False ls by (auto simp: Let_def split: if_splits)
      have info: "info = segment_info_of ph"
        using load_segment_status(2) [OF ls e1] by (simp add: segment_info_of_def)
      let ?r1 = "r\<lparr>segments := (segments r)[k := info], bytes_copied := bc1, bytes_zeroed := bz1\<rparr>"
      have rest: "pass2 config ehdr js (Suc k) ?r1 m1 = (MIMI_OK, k', r', m')"
        using Cons.prems(1) ph True False ls e1 by (simp add: Let_def)
      have k16: "Suc k \<le> MIMI_MAX_SEGMENTS" using False by simp
      have len1: "length (segments ?r1) = MIMI_MAX_SEGMENTS" using Cons.prems(3) by simp
      note IH = Cons.IH [OF rest k16 len1]
      have lh: "load_headers config ehdr (i # js) = ph # load_headers config ehdr js"
        using ph True by (simp add: load_headers_Cons)
      have a: "k' = min MIMI_MAX_SEGMENTS (k + length (load_headers config ehdr (i # js)))"
        using IH by (simp add: lh)
      have b: "segments r' ! (k + j) = segment_info_of (load_headers config ehdr (i # js) ! j)"
        if "j < k' - k" for j
      proof (cases j)
        case 0
        have "segments r' ! k = segments ?r1 ! k" using IH by simp
        also have "\<dots> = info" using False Cons.prems(3) by simp
        finally show ?thesis using 0 info by (simp add: lh)
      next
        case (Suc j')
        then have "j' < k' - Suc k" using that by simp
        then have "segments r' ! (Suc k + j') = segment_info_of (load_headers config ehdr js ! j')"
          using IH by blast
        then show ?thesis using Suc by (simp add: lh)
      qed
      have c: "segments r' ! j = segments r ! j" if "j < k" for j
      proof -
        have "segments r' ! j = segments ?r1 ! j" using IH that by simp
        then show ?thesis using that by simp
      qed
      show ?thesis using a b c IH by blast
    qed
  qed
qed


section \<open>The paths through the main load function\<close>


text \<open>Unfolding mimi_elf_load on success and on each failure.\<close>

lemma elf_load_cases:
  obtains (read_fail) "read_ehdr (io config) = None"
      "mimi_elf_load config m = (result_init\<lparr>status := MIMI_ERR_READ\<rparr>, m)"
  | (bad_header) ehdr where "read_ehdr (io config) = Some ehdr"
      "mimi_elf_validate_header ehdr \<noteq> MIMI_OK"
      "mimi_elf_load config m = (result_init\<lparr>status := mimi_elf_validate_header ehdr\<rparr>, m)"
  | (pass1_fail) ehdr err1 st where "read_ehdr (io config) = Some ehdr"
      "mimi_elf_validate_header ehdr = MIMI_OK"
      "pass1 config ehdr [0 ..< min (unat (e_phnum ehdr)) MIMI_MAX_SEGMENTS] pass1_init = (err1, st)"
      "err1 \<noteq> MIMI_OK"
      "mimi_elf_load config m =
         (result_init\<lparr>entry := e_entry ehdr, load_base := p1_load_base st,
            load_end := p1_load_end st, status := err1\<rparr>, m)"
  | (no_loadable) ehdr st where "read_ehdr (io config) = Some ehdr"
      "mimi_elf_validate_header ehdr = MIMI_OK"
      "pass1 config ehdr [0 ..< min (unat (e_phnum ehdr)) MIMI_MAX_SEGMENTS] pass1_init = (MIMI_OK, st)"
      "loadable_count st = 0"
      "mimi_elf_load config m =
         (result_init\<lparr>entry := e_entry ehdr, load_base := p1_load_base st,
            load_end := p1_load_end st, status := MIMI_ERR_NO_LOADABLE\<rparr>, m)"
  | (pass2) ehdr st err2 seg_index result2 m2 where "read_ehdr (io config) = Some ehdr"
      "mimi_elf_validate_header ehdr = MIMI_OK"
      "pass1 config ehdr [0 ..< min (unat (e_phnum ehdr)) MIMI_MAX_SEGMENTS] pass1_init = (MIMI_OK, st)"
      "loadable_count st \<noteq> 0"
      "pass2 config ehdr [0 ..< unat (e_phnum ehdr)] 0
         (result_init\<lparr>entry := e_entry ehdr, load_base := p1_load_base st,
            load_end := p1_load_end st\<rparr>) m = (err2, seg_index, result2, m2)"
      "mimi_elf_load config m =
         (if err2 \<noteq> MIMI_OK then (result2\<lparr>status := err2\<rparr>, m2)
          else (result2\<lparr>segment_count := of_nat seg_index, total_size := total_memsz st,
                  status := MIMI_OK\<rparr>, m2))"
proof (cases "read_ehdr (io config)")
  case None
  then show ?thesis using read_fail by (simp add: mimi_elf_load_def)
next
  case (Some ehdr)
  show ?thesis
  proof (cases "mimi_elf_validate_header ehdr = MIMI_OK")
    case False
    then show ?thesis using bad_header Some by (simp add: mimi_elf_load_def)
  next
    case True
    obtain err1 st where
      p1: "pass1 config ehdr [0 ..< min (unat (e_phnum ehdr)) MIMI_MAX_SEGMENTS] pass1_init = (err1, st)"
      by (metis surj_pair)
    show ?thesis
    proof (cases "err1 = MIMI_OK")
      case False
      then show ?thesis using pass1_fail [OF Some True p1] Some True p1
        by (simp add: mimi_elf_load_def Let_def)
    next
      case e1: True
      show ?thesis
      proof (cases "loadable_count st = 0")
        case True
        then show ?thesis
          using no_loadable [OF Some \<open>mimi_elf_validate_header ehdr = MIMI_OK\<close> p1 [unfolded e1]]
            Some \<open>mimi_elf_validate_header ehdr = MIMI_OK\<close> p1 e1
          by (simp add: mimi_elf_load_def Let_def)
      next
        case False
        obtain err2 seg_index result2 m2 where
          p2: "pass2 config ehdr [0 ..< unat (e_phnum ehdr)] 0
            (result_init\<lparr>entry := e_entry ehdr, load_base := p1_load_base st,
            load_end := p1_load_end st\<rparr>) m = (err2, seg_index, result2, m2)"
          by (metis prod_cases4)
        show ?thesis
          using pass2 [OF Some True p1 [unfolded e1] False p2] Some True p1 e1 False p2
          by (simp add: mimi_elf_load_def Let_def)
      qed
    qed
  qed
qed

lemma pass2_result_status:
  "pass2 config ehdr is k r m = (err, k', r', m') \<Longrightarrow> status r' = status r"
proof (induction "is" arbitrary: k r m)
  case Nil
  then show ?case by simp
next
  case (Cons i js)
  show ?case
  proof (cases "read_phdr (io config) ehdr i")
    case None
    with Cons.prems(1) show ?thesis by simp
  next
    case (Some ph)
    obtain e1 info m1 bc1 bz1 where
      ls: "mimi_load_segment config ph (bytes_copied r) (bytes_zeroed r) m = (e1, info, m1, bc1, bz1)"
      by (metis prod_cases5)
    show ?thesis
      using Cons.prems(1) Some ls
        Cons.IH [of k r m]
        Cons.IH [of "Suc k" "r\<lparr>segments := (segments r)[k := info], bytes_copied := bc1, bytes_zeroed := bz1\<rparr>" m1]
      by (auto simp: Let_def split: if_splits)
  qed
qed


section \<open>Reading the structures back from an in-memory image\<close>

lemma le32_rd:
  "(ucast (ucast w :: u8) :: u32) OR push_bit 8 (ucast (ucast (drop_bit 8 w) :: u8)) OR
    push_bit 16 (ucast (ucast (drop_bit 16 w) :: u8)) OR push_bit 24 (ucast (ucast (drop_bit 24 w) :: u8)) = w"
  (is "?l = w")
proof (rule bit_word_eqI)
  fix n assume "n < LENGTH(32)"
  then have n: "n < 32" by simp
  consider "n < 8" | "8 \<le> n" "n < 16" | "16 \<le> n" "n < 24" | "24 \<le> n" by linarith
  then show "bit ?l n \<longleftrightarrow> bit w n"
    using n by cases (auto simp: bit_simps)
qed

lemma le16_rd:
  "(ucast (ucast w :: u8) :: u16) OR push_bit 8 (ucast (ucast (drop_bit 8 w) :: u8)) = w"
  (is "?l = w")
proof (rule bit_word_eqI)
  fix n assume "n < LENGTH(16)"
  then have n: "n < 16" by simp
  consider "n < 8" | "8 \<le> n" by linarith
  then show "bit ?l n \<longleftrightarrow> bit w n"
    using n by cases (auto simp: bit_simps)
qed

lemma length_le32 [simp]: "length (le32 w) = 4"
  by (simp add: le32_def)

lemma length_le16 [simp]: "length (le16 w) = 2"
  by (simp add: le16_def)

lemma length_encode_phdr [simp]: "length (encode_phdr p) = 32"
  by (simp add: encode_phdr_def)

lemma length_encode_ehdr [simp]: "length (e_ident e) = 16 \<Longrightarrow> length (encode_ehdr e) = 52"
  by (simp add: encode_ehdr_def)

lemma decode_encode_phdr [simp]: "decode_phdr (encode_phdr p) = p"
  by (simp add: decode_phdr_def encode_phdr_def rd32_def le32_def le32_rd)


lemma decode_encode_ehdr [simp]: "length (e_ident e) = 16 \<Longrightarrow> decode_ehdr (encode_ehdr e) = e"
  by (simp add: decode_ehdr_def encode_ehdr_def rd32_def rd16_def le32_def le16_def le32_rd le16_rd
      nth_append)

lemma file_read_ehdr:
  "length (e_ident e) = 16 \<Longrightarrow> read_ehdr (file_read (elf_image e phs data)) = Some e"
  by (simp add: read_ehdr_def file_read_def elf_image_def sizeof_Ehdr_def)

lemma length_concat_encode [simp]: "length (concat (map encode_phdr phs)) = 32 * length phs"
  by (induction phs) simp_all

lemma drop_concat_encode:
  "i \<le> length phs \<Longrightarrow> drop (32 * i) (concat (map encode_phdr phs)) = concat (map encode_phdr (drop i phs))"
proof (induction phs arbitrary: i)
  case Nil then show ?case by simp
next
  case (Cons p ps)
  show ?case
  proof (cases i)
    case 0 then show ?thesis by simp
  next
    case (Suc j)
    with Cons show ?thesis by simp
  qed
qed

lemma file_read_phdr:
  assumes "length (e_ident e) = 16" "e_phoff e = 52" "i < length phs" "length phs \<le> 64"
  shows "read_phdr (file_read (elf_image e phs data)) e i = Some (phs ! i)"
proof -
  have u: "unat (52 + of_nat i * 32 :: u32) = 52 + 32 * i"
    using assms(3,4) by (simp add: unat_word_ariths unat_of_nat)
  have d: "drop (52 + 32 * i) (elf_image e phs data) = concat (map encode_phdr (drop i phs)) @ data"
    using assms by (simp add: elf_image_def drop_concat_encode flip: drop_drop)
  have "drop i phs = phs ! i # drop (Suc i) phs"
    using assms(3) by (simp add: Cons_nth_drop_Suc)
  then have "take 32 (concat (map encode_phdr (drop i phs)) @ data) = encode_phdr (phs ! i)"
    by simp
  then show ?thesis
    by (simp add: read_phdr_def file_read_def sizeof_Phdr_def assms(2) u d)
qed




lemma file_read_data:
  "length (e_ident e) = 16 \<Longrightarrow> 52 + 32 * length phs \<le> unat off \<Longrightarrow>
   file_read (elf_image e phs data) off n =
     Some (take (unat n) (drop (unat off - (52 + 32 * length phs)) data))"
  by (simp add: file_read_def elf_image_def)

lemmas consts_defs = EI_MAG0_def EI_MAG1_def EI_MAG2_def EI_MAG3_def
      EI_CLASS_def EI_DATA_def EI_VERSION_def ELFMAG0_def ELFMAG1_def ELFMAG2_def ELFMAG3_def
      ELFCLASS32_def ELFDATA2LSB_def EV_CURRENT_def ET_EXEC_def EM_ARM_def sizeof_Phdr_def
      PT_LOAD_def MIMI_MAX_SEGMENTS_def LOAD_BUFFER_SIZE_def MIMI_MEM_WRITE_def MIMI_MEM_RAM_def

lemma ehdr_n_valid: "0 < n \<Longrightarrow> n \<le> 64 \<Longrightarrow> mimi_elf_validate_header (ehdr_n n) = MIMI_OK"
  by (auto simp: mimi_elf_validate_header_def ehdr_n_def consts_defs)

lemma ehdr_n_sel [simp]: "length (e_ident (ehdr_n n)) = 16" "e_phoff (ehdr_n n) = 52"
  "e_phnum (ehdr_n n) = n" "e_entry (ehdr_n n) = 0x20000001"
  by (simp_all add: ehdr_n_def)

lemma test_config_sel [simp]:
  "io (test_config f v) = file_read f" "validate_addresses (test_config f v)"
  "zero_bss (test_config f v)" "verify_after_load (test_config f v) = v"
  "regions (test_config f v) = [ram_region]" "region_count (test_config f v) = 1"
  by (simp_all add: test_config_def)

lemma ram_valid:
  "0x20000000 \<le> a \<Longrightarrow> unat a + unat sz \<le> 0x20040000 \<Longrightarrow>
   mimi_addr_valid a sz (MIMI_MEM_WRITE OR MIMI_MEM_RAM) (test_config f v)"
  by (simp add: mimi_addr_valid_def mimi_addr_in_region_def ram_region_def consts_defs
      word_le_nat_alt word_less_nat_alt unat_word_ariths)

lemma mimi_memset_numeral:
  "mimi_memset m d val (numeral n) = mimi_memset (m(d := val)) (d + 1) val (pred_numeral n)"
  by (simp add: numeral_eq_Suc)

lemmas eval_simps = mimi_memset_numeral mimi_elf_load_def file_read_ehdr file_read_phdr file_read_data ehdr_n_valid
  mimi_load_segment_def mimi_addr_valid_def mimi_addr_in_region_def ram_region_def
  mimi_ranges_overlap_def chunk_of_def pass1_init_def pass1_accept_def result_init_def
  loadable_count_def copy_loop_step verify_loop_step
  ld_def pt_null_def seg_k_def consts_defs word_le_nat_alt word_less_nat_alt Let_def upt_rec
  mem_ff_def


lemma file_read_reads_file: "length f < 2 ^ 32 \<Longrightarrow> io_reads_file (file_read f) f"
  by (simp add: io_reads_file_def file_read_def)

lemma length_image [simp]:
  "length (e_ident e) = 16 \<Longrightarrow> length (elf_image e phs data) = 52 + 32 * length phs + length data"
  by (simp add: elf_image_def)


lemma ld_sel [simp]:
  "p_type (ld off va fsz msz) = PT_LOAD" "p_offset (ld off va fsz msz) = off"
  "p_vaddr (ld off va fsz msz) = va" "p_filesz (ld off va fsz msz) = fsz"
  "p_memsz (ld off va fsz msz) = msz" "p_flags (ld off va fsz msz) = 7"
  by (simp_all add: ld_def PT_LOAD_def)

section \<open>Error atomicity of the two passes\<close>

lemma load_segment_addr_invalid:
  assumes "mimi_load_segment config ph bc bz m = (MIMI_ERR_ADDR_INVALID, info, m', bc', bz')"
  shows "loadable ph \<or> p_type ph \<noteq> PT_LOAD"
    and "validate_addresses config"
    and "\<not> mimi_addr_valid (p_vaddr ph) (p_memsz ph) (MIMI_MEM_WRITE OR MIMI_MEM_RAM) config"
proof -
  obtain e1 m1 d1 bc1 where
    cl: "copy_loop (io config) (p_offset ph) (p_vaddr ph) (p_filesz ph) m bc = (e1, m1, d1, bc1)"
    by (metis prod_cases4)
  note st = copy_loop_status [OF cl]
  have vs: "verify_loop (io config) (p_offset ph) (p_vaddr ph) (p_filesz ph) mm
      \<noteq> MIMI_ERR_ADDR_INVALID" for mm
    using verify_loop_status [of "io config" "p_offset ph" "p_vaddr ph" "p_filesz ph" mm] by auto
  have "p_memsz ph \<noteq> 0 \<and> validate_addresses config \<and>
      \<not> mimi_addr_valid (p_vaddr ph) (p_memsz ph) (MIMI_MEM_WRITE OR MIMI_MEM_RAM) config"
    using assms cl st
    by (auto simp: mimi_load_segment_def Let_def vs split: if_splits)
  then show "loadable ph \<or> p_type ph \<noteq> PT_LOAD" "validate_addresses config"
    "\<not> mimi_addr_valid (p_vaddr ph) (p_memsz ph) (MIMI_MEM_WRITE OR MIMI_MEM_RAM) config"
    by (auto simp: loadable_def)
qed

lemma pass2_no_addr_invalid:
  assumes "pass2 config ehdr is k r m = (err, k', r', m')"
    and "\<And>i ph. i \<in> set is \<Longrightarrow> read_phdr (io config) ehdr i = Some ph \<Longrightarrow> loadable ph \<Longrightarrow>
           validate_addresses config \<Longrightarrow>
           mimi_addr_valid (p_vaddr ph) (p_memsz ph) (MIMI_MEM_WRITE OR MIMI_MEM_RAM) config"
  shows "err \<noteq> MIMI_ERR_ADDR_INVALID"
  using assms
proof (induction "is" arbitrary: k r m)
  case Nil
  then show ?case by simp
next
  case (Cons i js)
  have IH: "pass2 config ehdr js k0 r0 m0 = (err, k', r', m') \<Longrightarrow> err \<noteq> MIMI_ERR_ADDR_INVALID"
    for k0 r0 m0
    using Cons.prems(2) by (intro Cons.IH [of k0 r0 m0]) auto
  show ?case
  proof (cases "read_phdr (io config) ehdr i")
    case None
    with Cons.prems(1) show ?thesis by auto
  next
    case (Some ph)
    obtain e1 info m1 bc1 bz1 where
      ls: "mimi_load_segment config ph (bytes_copied r) (bytes_zeroed r) m = (e1, info, m1, bc1, bz1)"
      by (metis prod_cases5)
    have e1: "e1 \<noteq> MIMI_ERR_ADDR_INVALID" if "p_type ph = PT_LOAD"
    proof
      assume "e1 = MIMI_ERR_ADDR_INVALID"
      note bad = load_segment_addr_invalid [OF ls [unfolded this]]
      have "loadable ph" using bad(1) that by simp
      then show False using Cons.prems(2) [of i ph] Some bad(2,3) by simp
    qed
    show ?thesis
      using Cons.prems(1) Some ls e1 IH
      by (auto simp: Let_def split: if_splits)
  qed
qed


text \<open>
  C1, as stated, fails: on an image whose second segment lies beyond the end of the file,
  the load returns \<open>MIMI_ERR_READ\<close> from the second pass after the first segment has
  been written to memory.
\<close>

theorem load_error_atomicity_counterexample:
  "status (fst (mimi_elf_load (test_config img_short False) mem_ff)) = MIMI_ERR_READ \<and>
   snd (mimi_elf_load (test_config img_short False) mem_ff) 0x20000000 = 0xAA \<and>
   mem_ff 0x20000000 = 0xFF"
  unfolding img_short_def
  by (simp add: eval_simps)

text \<open>
  C1, amended.  Whenever the header read, the header validation or the first pass fails,
  \<open>mimi_elf_load\<close> returns that status and no byte of target memory has been written.
  In particular memory is untouched whenever the status is none of \<open>MIMI_OK\<close>,
  \<open>MIMI_ERR_READ\<close>, \<open>MIMI_ERR_ADDR_INVALID\<close> and \<open>MIMI_ERR_LOAD_FAILED\<close>, the only
  statuses the second pass can produce; and for an image with at most 16 program headers
  also when the status is \<open>MIMI_ERR_ADDR_INVALID\<close>.
\<close>

theorem load_error_atomicity:
  assumes "mimi_elf_load config m = (result, m')"
  shows "(first_pass_status config \<noteq> MIMI_OK \<longrightarrow>
            status result = first_pass_status config \<and> m' = m) \<and>
         (status result \<notin> {MIMI_OK, MIMI_ERR_READ, MIMI_ERR_ADDR_INVALID, MIMI_ERR_LOAD_FAILED} \<longrightarrow>
            m' = m) \<and>
         ((\<forall>ehdr. read_ehdr (io config) = Some ehdr \<longrightarrow> unat (e_phnum ehdr) \<le> MIMI_MAX_SEGMENTS) \<longrightarrow>
          status result \<notin> {MIMI_OK, MIMI_ERR_READ, MIMI_ERR_LOAD_FAILED} \<longrightarrow> m' = m)"
proof (cases config m rule: elf_load_cases)
  case read_fail
  then show ?thesis using assms by (auto simp: first_pass_status_def)
next
  case (bad_header ehdr)
  then show ?thesis using assms by (auto simp: first_pass_status_def)
next
  case (pass1_fail ehdr err1 st)
  then show ?thesis using assms by (auto simp: first_pass_status_def)
next
  case (no_loadable ehdr st)
  then show ?thesis using assms by (auto simp: first_pass_status_def)
next
  case (pass2 ehdr st err2 seg_index result2 m2)
  have fp: "first_pass_status config = MIMI_OK"
    using pass2(1-4) by (simp add: first_pass_status_def)
  note s2 = pass2_status [OF pass2(5)]
  have sm: "status result = err2" "m' = m2"
    using assms pass2(6) by (auto split: if_splits)
  have "err2 \<noteq> MIMI_ERR_ADDR_INVALID" if n: "unat (e_phnum ehdr) \<le> MIMI_MAX_SEGMENTS"
  proof (rule pass2_no_addr_invalid [OF pass2(5)])
    fix i ph
    assume i: "i \<in> set [0 ..< unat (e_phnum ehdr)]" "read_phdr (io config) ehdr i = Some ph"
      "loadable ph" "validate_addresses config"
    have "min (unat (e_phnum ehdr)) MIMI_MAX_SEGMENTS = unat (e_phnum ehdr)" using n by simp
    then have "pass1 config ehdr [0 ..< unat (e_phnum ehdr)] pass1_init = (MIMI_OK, st)"
      using pass2(3) by simp
    from pass1_ok_checked [OF this i(1,2,3)] i(4)
    show "mimi_addr_valid (p_vaddr ph) (p_memsz ph) (MIMI_MEM_WRITE OR MIMI_MEM_RAM) config"
      by simp
  qed
  then show ?thesis using fp s2 sm pass2(1) by auto
qed


theorem load_error_atomicity_witness:
  "first_pass_status (test_config img_overlap False) = MIMI_ERR_ADDR_OVERLAP \<and>
   status (fst (mimi_elf_load (test_config img_overlap False) mem_ff)) = MIMI_ERR_ADDR_OVERLAP \<and>
   snd (mimi_elf_load (test_config img_overlap False) mem_ff) = mem_ff"
proof -
  have fp: "first_pass_status (test_config img_overlap False) = MIMI_ERR_ADDR_OVERLAP"
    unfolding img_overlap_def by (simp add: first_pass_status_def eval_simps)
  have pr: "mimi_elf_load (test_config img_overlap False) mem_ff =
      (fst (mimi_elf_load (test_config img_overlap False) mem_ff),
       snd (mimi_elf_load (test_config img_overlap False) mem_ff))"
    by simp
  show ?thesis using load_error_atomicity [OF pr] fp by simp
qed

section \<open>Where the loader writes\<close>

text \<open>
  Every byte that \<open>mimi_elf_load\<close> changes lies in
  \<open>[vaddr, vaddr + max file_size mem_size)\<close> of some \<open>PT_LOAD\<close> header with
  \<open>mem_size > 0\<close> of the table.
\<close>

lemma load_frame:
  assumes "mimi_elf_load config m = (result, m')"
    and "\<forall>ehdr i ph. read_ehdr (io config) = Some ehdr \<longrightarrow> i < unat (e_phnum ehdr) \<longrightarrow>
           read_phdr (io config) ehdr i = Some ph \<longrightarrow> loadable ph \<longrightarrow>
           (\<forall>k < max (unat (p_filesz ph)) (unat (p_memsz ph)). a \<noteq> p_vaddr ph + of_nat k)"
  shows "m' a = m a"
proof (cases config m rule: elf_load_cases)
  case (pass2 ehdr st err2 seg_index result2 m2)
  have "m2 a = m a"
  proof (rule pass2_frame [OF pass2(5)])
    fix i ph assume "i \<in> set [0 ..< unat (e_phnum ehdr)]"
      "read_phdr (io config) ehdr i = Some ph" "loadable ph"
    then show "a \<notin> seg_span ph"
      using assms(2) pass2(1) by (auto simp: seg_span_def)
  qed
  moreover have "m' = m2" using assms(1) pass2(6) by (auto split: if_splits)
  ultimately show ?thesis by simp
qed (use assms(1) in auto)

text \<open>
  C2 at an image with one \<open>PT_LOAD\<close> header of \<open>p_filesz = 2 > p_memsz = 1\<close> at the last
  byte \<open>0x2003FFFF\<close> of the only RAM region, loaded with address validation on.  Both
  passes validate \<open>(p_vaddr, p_memsz)\<close>, which lies in the region, and the copy loop then
  writes \<open>p_filesz\<close> bytes: no step compares \<open>p_filesz\<close> with \<open>p_memsz\<close>.  The header is
  not rejected.  The load returns \<open>MIMI_OK\<close>, records one segment of size 1, reports
  \<open>load_end = 0x20040000\<close>, and has written the second file byte to \<open>0x20040000\<close>: outside
  the validated interval, at the reported \<open>load_end\<close>, and outside every region of the
  configuration.
\<close>

theorem filesz_overrun_written:
  "read_phdr (file_read img_edge) (ehdr_n 1) 0 = Some (ld 84 0x2003FFFF 2 1) \<and>
   mimi_addr_valid 0x2003FFFF 1 (MIMI_MEM_WRITE OR MIMI_MEM_RAM) (test_config img_edge False) \<and>
   mimi_addr_valid 0x2003FFFF 2 (MIMI_MEM_WRITE OR MIMI_MEM_RAM) (test_config img_edge False) = False \<and>
   mimi_addr_valid 0x20040000 1 (MIMI_MEM_WRITE OR MIMI_MEM_RAM) (test_config img_edge False) = False \<and>
   status (fst (mimi_elf_load (test_config img_edge False) mem_ff)) = MIMI_OK \<and>
   segment_count (fst (mimi_elf_load (test_config img_edge False) mem_ff)) = 1 \<and>
   segments (fst (mimi_elf_load (test_config img_edge False) mem_ff)) ! 0 =
     \<lparr>seg_vaddr = 0x2003FFFF, seg_size = 1, seg_flags = 7, loaded = True\<rparr> \<and>
   load_end (fst (mimi_elf_load (test_config img_edge False) mem_ff)) = 0x20040000 \<and>
   snd (mimi_elf_load (test_config img_edge False) mem_ff) 0x20040000 = 0xBB \<and>
   mem_ff 0x20040000 = 0xFF"
  unfolding img_edge_def
  by (simp add: eval_simps)

section \<open>The load postcondition\<close>





section \<open>What \<open>segment_count\<close> counts\<close>

lemma img_empty_reads:
  "read_ehdr (file_read img_empty) = Some (ehdr_n 2)"
  "read_phdr (file_read img_empty) (ehdr_n 2) 0 = Some (ld 116 0x20000000 0 0)"
  "read_phdr (file_read img_empty) (ehdr_n 2) (Suc 0) = Some (ld 116 0x20000010 1 1)"
  unfolding img_empty_def by (simp_all add: file_read_ehdr file_read_phdr)

lemma img_empty_eval:
  "status (fst (mimi_elf_load (test_config img_empty False) mem_ff)) = MIMI_OK"
  "segment_count (fst (mimi_elf_load (test_config img_empty False) mem_ff)) = 2"
  "pass1_loadable_count (test_config img_empty False) = 1"
  unfolding img_empty_def
  by (simp_all add: pass1_loadable_count_def eval_simps)

text \<open>
  C10.  In a successful load, \<open>segment_count\<close> is the number of \<open>PT_LOAD\<close> program
  headers processed in the second pass (all of them, up to the limit of 16), those with
  \<open>mem_size = 0\<close> included: entry \<open>j\<close> of \<open>segments\<close> describes the \<open>j\<close>-th
  \<open>PT_LOAD\<close> header with \<open>loaded = true\<close>.  The first pass counts only the headers
  with \<open>mem_size > 0\<close> among the first 16, so \<open>segment_count\<close> can exceed the number of
  segments validated and overlap-checked in the first pass, and for some image it does.
\<close>

theorem segment_count_counts_empty:
  assumes "mimi_elf_load config m = (result, m')" and "status result = MIMI_OK"
    and "read_ehdr (io config) = Some ehdr"
  shows "unat (segment_count result) =
           min MIMI_MAX_SEGMENTS (length (load_headers config ehdr [0 ..< unat (e_phnum ehdr)])) \<and>
         (\<forall>j < unat (segment_count result).
            segments result ! j =
              segment_info_of (load_headers config ehdr [0 ..< unat (e_phnum ehdr)] ! j)) \<and>
         pass1_loadable_count config =
           length (filter (\<lambda>i. \<exists>ph. read_phdr (io config) ehdr i = Some ph \<and> loadable ph)
                     [0 ..< min (unat (e_phnum ehdr)) MIMI_MAX_SEGMENTS]) \<and>
         (\<exists>config0 m0. status (fst (mimi_elf_load config0 m0)) = MIMI_OK \<and>
            pass1_loadable_count config0 < unat (segment_count (fst (mimi_elf_load config0 m0))))"
proof (cases config m rule: elf_load_cases)
  case (pass2 ehdr' st err2 seg_index result2 m2)
  have eh: "ehdr' = ehdr" using pass2(1) assms(3) by simp
  have e2: "err2 = MIMI_OK"
    and res: "result = result2\<lparr>segment_count := of_nat seg_index, total_size := total_memsz st,
                  status := MIMI_OK\<rparr>"
    using assms(1,2) pass2(6) by (auto split: if_splits)
  let ?lh = "load_headers config ehdr [0 ..< unat (e_phnum ehdr)]"
  have "seg_index = min MIMI_MAX_SEGMENTS (0 + length ?lh) \<and>
        length (segments result2) = MIMI_MAX_SEGMENTS \<and>
        (\<forall>j < seg_index - 0. segments result2 ! (0 + j) = segment_info_of (?lh ! j)) \<and>
        (\<forall>j < 0. segments result2 ! j =
           segments (result_init\<lparr>entry := e_entry ehdr, load_base := p1_load_base st,
             load_end := p1_load_end st\<rparr>) ! j)"
    using pass2(5) unfolding eh e2
    by (rule pass2_count) (simp_all add: result_init_def)
  then have si: "seg_index = min MIMI_MAX_SEGMENTS (length ?lh)"
    and sg: "\<And>j. j < seg_index \<Longrightarrow> segments result2 ! j = segment_info_of (?lh ! j)"
    by simp_all
  have "seg_index \<le> 16" using si by (simp add: MIMI_MAX_SEGMENTS_def)
  then have u: "unat (of_nat seg_index :: u32) = seg_index" by (simp add: unat_of_nat)
  have a: "unat (segment_count result) = min MIMI_MAX_SEGMENTS (length ?lh)"
    using si u by (simp add: res)
  have b: "\<forall>j < unat (segment_count result). segments result ! j = segment_info_of (?lh ! j)"
    using sg u by (simp add: res)
  have c: "pass1_loadable_count config =
           length (filter (\<lambda>i. \<exists>ph. read_phdr (io config) ehdr i = Some ph \<and> loadable ph)
                     [0 ..< min (unat (e_phnum ehdr)) MIMI_MAX_SEGMENTS])"
  proof -
    have "seg_info pass1_init = []" by (simp add: pass1_init_def)
    then have "length (seg_info st) =
        length (filter (\<lambda>i. \<exists>ph. read_phdr (io config) ehdr i = Some ph \<and> loadable ph)
                     [0 ..< min (unat (e_phnum ehdr)) MIMI_MAX_SEGMENTS])"
      using pass1_ok_count [OF pass2(3)] by (simp add: eh)
    moreover have "pass1_loadable_count config = length (seg_info st)"
      using pass2(3) by (simp add: pass1_loadable_count_def assms(3) eh loadable_count_def)
    ultimately show ?thesis by simp
  qed
  have d: "\<exists>config0 m0. status (fst (mimi_elf_load config0 m0)) = MIMI_OK \<and>
            pass1_loadable_count config0 < unat (segment_count (fst (mimi_elf_load config0 m0)))"
    by (rule exI [of _ "test_config img_empty False"], rule exI [of _ mem_ff])
       (simp add: img_empty_eval)
  show ?thesis using a b c d by blast
qed (use assms(1,2) in auto)

theorem segment_count_counts_empty_witness:
  "status (fst (mimi_elf_load (test_config img_empty False) mem_ff)) = MIMI_OK \<and>
   read_phdr (file_read img_empty) (ehdr_n 2) 0 = Some (ld 116 0x20000000 0 0) \<and>
   unat (segment_count (fst (mimi_elf_load (test_config img_empty False) mem_ff))) = 2 \<and>
   segments (fst (mimi_elf_load (test_config img_empty False) mem_ff)) ! 0 =
     \<lparr>seg_vaddr = 0x20000000, seg_size = 0, seg_flags = 7, loaded = True\<rparr> \<and>
   pass1_loadable_count (test_config img_empty False) = 1"
proof -
  let ?c = "test_config img_empty False"
  have pr: "mimi_elf_load ?c mem_ff = (fst (mimi_elf_load ?c mem_ff), snd (mimi_elf_load ?c mem_ff))"
    by simp
  have eh: "read_ehdr (io ?c) = Some (ehdr_n 2)" by (simp add: img_empty_reads)
  have lh: "load_headers ?c (ehdr_n 2) [0 ..< 2] =
      [ld 116 0x20000000 0 0, ld 116 0x20000010 1 1]"
    by (simp add: upt_rec load_headers_Cons img_empty_reads)
  from segment_count_counts_empty [OF pr img_empty_eval(1) eh]
  have "unat (segment_count (fst (mimi_elf_load ?c mem_ff))) = 2"
    and "\<forall>j < unat (segment_count (fst (mimi_elf_load ?c mem_ff))).
           segments (fst (mimi_elf_load ?c mem_ff)) ! j =
             segment_info_of ([ld 116 0x20000000 0 0, ld 116 0x20000010 1 1] ! j)"
    by (simp_all add: lh MIMI_MAX_SEGMENTS_def)
  then show ?thesis
    using img_empty_eval img_empty_reads(2) by (simp add: segment_info_of_def)
qed

section \<open>Overlap of loaded segments\<close>

text \<open>
  For an image with at most 16 program headers, loaded with address validation on, the
  memory ranges of any two loaded segments with \<open>mem_size > 0\<close> are disjoint.
\<close>

lemma accepted_segments_disjoint:
  assumes "mimi_elf_load config m = (result, m')" and "status result = MIMI_OK"
    and "validate_addresses config"
    and "read_ehdr (io config) = Some ehdr" and "unat (e_phnum ehdr) \<le> MIMI_MAX_SEGMENTS"
    and "p < q" and "q < unat (e_phnum ehdr)"
    and "read_phdr (io config) ehdr p = Some ph1" and "loadable ph1"
    and "read_phdr (io config) ehdr q = Some ph2" and "loadable ph2"
  shows "seg_range ph1 \<inter> seg_range ph2 = {}"
proof (cases config m rule: elf_load_cases)
  case (pass2 ehdr' st err2 seg_index result2 m2)
  have eh: "ehdr' = ehdr" using pass2(1) assms(4) by simp
  let ?n = "unat (e_phnum ehdr)"
  have mn: "min ?n MIMI_MAX_SEGMENTS = ?n" using assms(5) by simp
  have p1: "pass1 config ehdr [0 ..< ?n] pass1_init = (MIMI_OK, st)"
    using pass2(3) by (simp add: eh mn)
  have nowrap: "unat (p_vaddr ph') + unat (p_memsz ph') < 2 ^ 32"
    if "j < ?n" "read_phdr (io config) ehdr j = Some ph'" "loadable ph'" for j ph'
  proof -
    have "j \<in> set [0 ..< ?n]" using that(1) by simp
    from pass1_ok_checked [OF p1 this that(2,3)] assms(3)
    show ?thesis by (auto dest: addr_valid_no_wrap)
  qed
  have pq: "p < q" "q < length [0 ..< ?n]" "[0 ..< ?n] ! p = p" "[0 ..< ?n] ! q = q"
    using assms(6,7) by simp_all
  have "\<not> mimi_ranges_overlap (p_vaddr ph2) (p_memsz ph2) (p_vaddr ph1) (p_memsz ph1)"
    using pass1_ok_pairs [OF p1 pq(1,2), of ph1 ph2] assms(8-11) pq(3,4) by simp
  moreover have "unat (p_vaddr ph1) + unat (p_memsz ph1) < 2 ^ 32"
    using nowrap [of p ph1] assms by simp
  moreover have "unat (p_vaddr ph2) + unat (p_memsz ph2) < 2 ^ 32"
    using nowrap [of q ph2] assms by simp
  ultimately show ?thesis by (intro no_overlap_seg_range)
qed (use assms(1,2) in auto)


text \<open>
  C4 at an image with 17 program headers: a two-byte \<open>PT_LOAD\<close> segment at index 0,
  fifteen \<open>PT_NULL\<close> entries, and at index 16 a \<open>PT_LOAD\<close> segment that overlaps the
  first in the byte at \<open>0x20000001\<close>.  The first pass stops at index 16, so the overlap
  is never checked: the load succeeds, both segments are recorded as loaded, and the
  shared byte holds the data of the second segment.
\<close>

theorem hidden_overlap_loaded:
  "read_phdr (file_read img_hidden) (ehdr_n 17) 0 = Some (ld 596 0x20000000 2 2) \<and>
   read_phdr (file_read img_hidden) (ehdr_n 17) 16 = Some (ld 598 0x20000001 2 2) \<and>
   mimi_ranges_overlap 0x20000001 2 0x20000000 2 \<and>
   status (fst (mimi_elf_load (test_config img_hidden False) mem_ff)) = MIMI_OK \<and>
   segment_count (fst (mimi_elf_load (test_config img_hidden False) mem_ff)) = 2 \<and>
   segments (fst (mimi_elf_load (test_config img_hidden False) mem_ff)) ! 0 =
     \<lparr>seg_vaddr = 0x20000000, seg_size = 2, seg_flags = 7, loaded = True\<rparr> \<and>
   segments (fst (mimi_elf_load (test_config img_hidden False) mem_ff)) ! 1 =
     \<lparr>seg_vaddr = 0x20000001, seg_size = 2, seg_flags = 7, loaded = True\<rparr> \<and>
   snd (mimi_elf_load (test_config img_hidden False) mem_ff) 0x20000001 = 0xB0"
  unfolding img_hidden_def
  by (simp add: eval_simps nth_append)


section \<open>Loads that succeed\<close>
lemma file_read_full:
  "unat fo + unat c \<le> length f \<Longrightarrow>
   file_read f fo c = Some (take (unat c) (drop (unat fo) f)) \<and>
   length (take (unat c) (drop (unat fo) f)) = unat c"
  by (simp add: file_read_def)

lemma copy_loop_succeeds:
  "rd = file_read f \<Longrightarrow> length f < 2 ^ 32 \<Longrightarrow> unat fo + unat r \<le> length f \<Longrightarrow>
   \<exists>m'. copy_loop rd fo d r m bc = (MIMI_OK, m', d + r, bc + r)"
proof (induction rd fo d r m bc rule: copy_loop.induct)
  case (1 rd fo d r m bc)
  show ?case
  proof (cases "r = 0")
    case True
    then show ?thesis by simp
  next
    case False
    note r = chunk_facts [OF False]
    let ?c = "chunk_of r"
    let ?b = "take (unat ?c) (drop (unat fo) f)"
    have le: "unat fo + unat ?c \<le> length f" using "1.prems"(3) r by simp
    have rd: "rd fo ?c = Some ?b" "length ?b = unat ?c"
      using file_read_full [OF le] "1.prems"(1) by simp_all
    have ufo: "unat (fo + ?c) = unat fo + unat ?c"
      using le "1.prems"(2) by (simp add: unat_word_ariths)
    have "\<exists>m'. copy_loop rd (fo + ?c) (d + ?c) (r - ?c) (mimi_memcpy m d ?b) (bc + ?c)
             = (MIMI_OK, m', d + ?c + (r - ?c), bc + ?c + (r - ?c))"
      using False rd "1.prems" r ufo
      by (intro "1.IH") (auto simp: word_greater_zero_iff)
    then show ?thesis using False rd by (simp add: copy_loop_step)
  qed
qed

lemma verify_loop_succeeds:
  "rd = file_read f \<Longrightarrow> length f < 2 ^ 32 \<Longrightarrow> unat fo + unat r \<le> length f \<Longrightarrow>
   (\<And>k. k < unat r \<Longrightarrow> m (d + of_nat k) = f ! (unat fo + k)) \<Longrightarrow>
   verify_loop rd fo d r m = MIMI_OK"
proof (induction rd fo d r m rule: verify_loop.induct)
  case (1 rd fo d r m)
  show ?case
  proof (cases "r = 0")
    case True
    then show ?thesis by simp
  next
    case False
    note r = chunk_facts [OF False]
    let ?c = "chunk_of r"
    let ?b = "take (unat ?c) (drop (unat fo) f)"
    have le: "unat fo + unat ?c \<le> length f" using "1.prems"(3) r by simp
    have rd: "rd fo ?c = Some ?b" "length ?b = unat ?c"
      using file_read_full [OF le] "1.prems"(1) by simp_all
    have ufo: "unat (fo + ?c) = unat fo + unat ?c"
      using le "1.prems"(2) by (simp add: unat_word_ariths)
    have "length ?b \<le> 2 ^ 32" using rd(2) unat_lt32 [of ?c] by simp
    moreover have "m (d + of_nat k) = ?b ! k" if "k < length ?b" for k
    proof -
      have "k < unat ?c" using that rd(2) by simp
      then have "m (d + of_nat k) = f ! (unat fo + k)" using r by (intro "1.prems"(4)) simp
      also have "\<dots> = ?b ! k" using \<open>k < unat ?c\<close> le by simp
      finally show ?thesis .
    qed
    ultimately have cmp: "mimi_memcmp m d ?b = 0" by (simp add: memcmp_zero_iff)
    have rest: "m (d + ?c + of_nat k) = f ! (unat (fo + ?c) + k)" if "k < unat (r - ?c)" for k
    proof -
      have "unat ?c + k < unat r" using that r by simp
      then have "m (d + of_nat (unat ?c + k)) = f ! (unat fo + (unat ?c + k))"
        by (rule "1.prems"(4))
      then show ?thesis by (simp add: ufo add.assoc)
    qed
    have "verify_loop rd (fo + ?c) (d + ?c) (r - ?c) m = MIMI_OK"
      using False rd cmp "1.prems"(1,2,3) r ufo rest
      by (intro "1.IH") (auto simp: word_greater_zero_iff)
    then show ?thesis using False rd cmp by (simp add: verify_loop_step)
  qed
qed

lemma load_segment_succeeds:
  assumes io: "io config = file_read f" and len: "length f < 2 ^ 32"
    and ok: "p_memsz ph \<noteq> 0 \<Longrightarrow>
       (validate_addresses config \<longrightarrow>
          mimi_addr_valid (p_vaddr ph) (p_memsz ph) (MIMI_MEM_WRITE OR MIMI_MEM_RAM) config) \<and>
       unat (p_offset ph) + unat (p_filesz ph) \<le> length f"
  shows "\<exists>info m' bc' bz'. mimi_load_segment config ph bc bz m = (MIMI_OK, info, m', bc', bz')"
proof (cases "p_memsz ph = 0")
  case True
  then show ?thesis by (simp add: mimi_load_segment_def)
next
  case False
  note ok' = ok [OF False]
  obtain m1 where cl: "copy_loop (io config) (p_offset ph) (p_vaddr ph) (p_filesz ph) m bc
      = (MIMI_OK, m1, p_vaddr ph + p_filesz ph, bc + p_filesz ph)"
    using copy_loop_succeeds [OF io len, of "p_offset ph" "p_filesz ph"] ok' by blast
  have rf: "io_reads_file (io config) f" using io len by (simp add: file_read_reads_file)
  note cc = copy_loop_content [OF cl rf]
  define m2 where "m2 = (if zero_bss config \<and> p_memsz ph > p_filesz ph
      then mimi_memset m1 (p_vaddr ph + p_filesz ph) 0 (unat (p_memsz ph - p_filesz ph)) else m1)"
  have keep: "m2 (p_vaddr ph + of_nat k) = f ! (unat (p_offset ph) + k)"
    if k: "k < unat (p_filesz ph)" for k
  proof (cases "zero_bss config \<and> p_memsz ph > p_filesz ph")
    case False
    then have "m2 = m1" by (auto simp: m2_def)
    then show ?thesis using cc k by simp
  next
    case True
    have "mimi_memset m1 (p_vaddr ph + p_filesz ph) 0 (unat (p_memsz ph - p_filesz ph))
            (p_vaddr ph + of_nat k) = m1 (p_vaddr ph + of_nat k)"
    proof (rule memset_outside)
      fix j assume "j < unat (p_memsz ph - p_filesz ph)"
      then have j: "unat (p_filesz ph) + j < unat (p_memsz ph)"
        using True by (simp add: unat_sub_less)
      have "unat (p_memsz ph) < 2 ^ 32" by (rule unat_lt32)
      then have "p_vaddr ph + of_nat k \<noteq> p_vaddr ph + of_nat (unat (p_filesz ph) + j)"
        using k j by (subst addr_inj32) simp_all
      then show "p_vaddr ph + of_nat k \<noteq> p_vaddr ph + p_filesz ph + of_nat j"
        by (simp add: add.assoc)
    qed
    then show ?thesis using True cc k by (simp add: m2_def)
  qed
  have v: "verify_loop (io config) (p_offset ph) (p_vaddr ph) (p_filesz ph) m2 = MIMI_OK"
    using ok' keep by (intro verify_loop_succeeds [OF io len]) auto
  show ?thesis
    using False ok' cl v
    by (simp add: mimi_load_segment_def Let_def m2_def)
qed


lemma pass1_succeeds:
  assumes "\<And>i. i \<in> set is \<Longrightarrow> \<exists>ph. read_phdr (io config) ehdr i = Some ph"
    and "\<And>i ph. i \<in> set is \<Longrightarrow> read_phdr (io config) ehdr i = Some ph \<Longrightarrow> loadable ph \<Longrightarrow>
           validate_addresses config \<Longrightarrow>
           mimi_addr_valid (p_vaddr ph) (p_memsz ph) (MIMI_MEM_WRITE OR MIMI_MEM_RAM) config"
    and "\<And>i ph v msz. i \<in> set is \<Longrightarrow> read_phdr (io config) ehdr i = Some ph \<Longrightarrow> loadable ph \<Longrightarrow>
           (v, msz) \<in> set (seg_info st) \<Longrightarrow>
           \<not> mimi_ranges_overlap (p_vaddr ph) (p_memsz ph) v msz"
    and "\<And>p q ph1 ph2. p < q \<Longrightarrow> q < length is \<Longrightarrow>
           read_phdr (io config) ehdr (is ! p) = Some ph1 \<Longrightarrow> loadable ph1 \<Longrightarrow>
           read_phdr (io config) ehdr (is ! q) = Some ph2 \<Longrightarrow> loadable ph2 \<Longrightarrow>
           \<not> mimi_ranges_overlap (p_vaddr ph2) (p_memsz ph2) (p_vaddr ph1) (p_memsz ph1)"
  shows "\<exists>st'. pass1 config ehdr is st = (MIMI_OK, st')"
  using assms
proof (induction "is" arbitrary: st)
  case Nil
  then show ?case by simp
next
  case (Cons i js)
  obtain ph where ph: "read_phdr (io config) ehdr i = Some ph"
    using Cons.prems(1) [of i] by auto
  have pairs: "\<not> mimi_ranges_overlap (p_vaddr ph2) (p_memsz ph2) (p_vaddr ph1) (p_memsz ph1)"
    if "p < q" "q < length js" "read_phdr (io config) ehdr (js ! p) = Some ph1" "loadable ph1"
       "read_phdr (io config) ehdr (js ! q) = Some ph2" "loadable ph2" for p q ph1 ph2
    using Cons.prems(4) [of "Suc p" "Suc q" ph1 ph2] that by simp
  have rd: "\<exists>ph. read_phdr (io config) ehdr j = Some ph" if "j \<in> set js" for j
    using Cons.prems(1) [of j] that by simp
  have va: "mimi_addr_valid (p_vaddr ph') (p_memsz ph') (MIMI_MEM_WRITE OR MIMI_MEM_RAM) config"
    if "j \<in> set js" "read_phdr (io config) ehdr j = Some ph'" "loadable ph'"
      "validate_addresses config" for j ph'
    using Cons.prems(2) [of j ph'] that by simp
  have old: "\<not> mimi_ranges_overlap (p_vaddr ph') (p_memsz ph') v msz"
    if "j \<in> set js" "read_phdr (io config) ehdr j = Some ph'" "loadable ph'"
      "(v, msz) \<in> set (seg_info st)" for j ph' v msz
    using Cons.prems(3) [of j ph' v msz] that by simp
  show ?case
  proof (cases "loadable ph")
    case False
    have "\<exists>st'. pass1 config ehdr js st = (MIMI_OK, st')"
      by (rule Cons.IH) (fact rd, fact va, fact old, fact pairs)
    then show ?thesis using ph False by (auto simp: loadable_def)
  next
    case True
    have v: "validate_addresses config \<longrightarrow>
        mimi_addr_valid (p_vaddr ph) (p_memsz ph) (MIMI_MEM_WRITE OR MIMI_MEM_RAM) config"
      using Cons.prems(2) [of i ph] ph True by simp
    have no: "\<not> list_ex (\<lambda>(v, msz). mimi_ranges_overlap (p_vaddr ph) (p_memsz ph) v msz) (seg_info st)"
      using Cons.prems(3) [of i ph] ph True by (auto simp: list_ex_iff)
    have new: "\<not> mimi_ranges_overlap (p_vaddr ph') (p_memsz ph') v msz"
      if j: "j \<in> set js" "read_phdr (io config) ehdr j = Some ph'" "loadable ph'"
        and vm: "(v, msz) \<in> set (seg_info (pass1_accept st ph))" for j ph' v msz
    proof -
      from j(1) obtain q where q: "q < length js" "js ! q = j" by (auto simp: in_set_conv_nth)
      have n: "\<not> mimi_ranges_overlap (p_vaddr ph') (p_memsz ph') (p_vaddr ph) (p_memsz ph)"
        using Cons.prems(4) [of 0 "Suc q" ph ph'] q j ph True by simp
      from vm have "(v, msz) \<in> set (seg_info st) \<or> (v, msz) = (p_vaddr ph, p_memsz ph)" by auto
      then show ?thesis using old [OF j] n by auto
    qed
    have "\<exists>st'. pass1 config ehdr js (pass1_accept st ph) = (MIMI_OK, st')"
      by (rule Cons.IH) (fact rd, fact va, fact new, fact pairs)
    then show ?thesis using ph True v no by (auto simp: loadable_def)
  qed
qed

lemma pass2_succeeds:
  assumes io: "io config = file_read f" and len: "length f < 2 ^ 32"
    and "\<And>i. i \<in> set is \<Longrightarrow> \<exists>ph. read_phdr (io config) ehdr i = Some ph"
    and "\<And>i ph. i \<in> set is \<Longrightarrow> read_phdr (io config) ehdr i = Some ph \<Longrightarrow> loadable ph \<Longrightarrow>
           (validate_addresses config \<longrightarrow>
              mimi_addr_valid (p_vaddr ph) (p_memsz ph) (MIMI_MEM_WRITE OR MIMI_MEM_RAM) config) \<and>
           unat (p_offset ph) + unat (p_filesz ph) \<le> length f"
  shows "\<exists>k' r' m'. pass2 config ehdr is k r m = (MIMI_OK, k', r', m')"
  using assms(3,4)
proof (induction "is" arbitrary: k r m)
  case Nil
  then show ?case by simp
next
  case (Cons i js)
  obtain ph where ph: "read_phdr (io config) ehdr i = Some ph"
    using Cons.prems(1) [of i] by auto
  have rest: "\<exists>k' r' m'. pass2 config ehdr js k0 r0 m0 = (MIMI_OK, k', r', m')" for k0 r0 m0
    using Cons.prems by (intro Cons.IH) auto
  show ?case
  proof (cases "p_type ph = PT_LOAD")
    case False
    then show ?thesis using ph rest [of k r m] by simp
  next
    case True
    show ?thesis
    proof (cases "k \<ge> MIMI_MAX_SEGMENTS")
      case True
      then show ?thesis using ph \<open>p_type ph = PT_LOAD\<close> by simp
    next
      case False
      have "\<exists>info m' bc' bz'. mimi_load_segment config ph (bytes_copied r) (bytes_zeroed r) m
          = (MIMI_OK, info, m', bc', bz')"
      proof (rule load_segment_succeeds [OF io len])
        assume "p_memsz ph \<noteq> 0"
        then have "loadable ph" using True by (simp add: loadable_def)
        then show "(validate_addresses config \<longrightarrow>
              mimi_addr_valid (p_vaddr ph) (p_memsz ph) (MIMI_MEM_WRITE OR MIMI_MEM_RAM) config) \<and>
           unat (p_offset ph) + unat (p_filesz ph) \<le> length f"
          using Cons.prems(2) [of i ph] ph by simp
      qed
      then obtain info m1 bc1 bz1 where
        ls: "mimi_load_segment config ph (bytes_copied r) (bytes_zeroed r) m
          = (MIMI_OK, info, m1, bc1, bz1)" by blast
      show ?thesis
        using ph True False ls
          rest [of "Suc k" "r\<lparr>segments := (segments r)[k := info], bytes_copied := bc1,
                              bytes_zeroed := bz1\<rparr>" m1]
        by (simp add: Let_def)
    qed
  qed
qed

lemma seg_k_addr: "i < 32 \<Longrightarrow> unat (0x20000000 + of_nat i :: u32) = 0x20000000 + i"
  by (simp add: unat_word_ariths unat_of_nat)

lemma seg_k_sel [simp]:
  "p_type (seg_k off i) = PT_LOAD" "p_offset (seg_k off i) = off"
  "p_vaddr (seg_k off i) = 0x20000000 + of_nat i" "p_filesz (seg_k off i) = 1"
  "p_memsz (seg_k off i) = 1" "loadable (seg_k off i)"
  by (simp_all add: seg_k_def loadable_def)

lemma img16_reads:
  "read_ehdr (file_read img16) = Some (ehdr_n 16)"
  "i < 16 \<Longrightarrow> read_phdr (file_read img16) (ehdr_n 16) i = Some (seg_k 564 i)"
  unfolding img16_def by (simp_all add: file_read_ehdr file_read_phdr)

text \<open>
  Read from a fault-free file, an image with a valid header passes the load with
  \<open>MIMI_OK\<close> whenever every program header can be read, every \<open>PT_LOAD\<close> header with
  \<open>mem_size > 0\<close> passes the address check (when enabled) and has its file range inside
  the file, those among the first 16 program headers do not overlap pairwise, and at
  least one of them is among the first 16 program headers.  The value of
  \<open>segment_count\<close> is then the number of \<open>PT_LOAD\<close> headers of the table, capped at 16.
  An image of sixteen one-byte segments is an instance.
\<close>

lemma load_succeeds:
  assumes "io config = file_read f" and "length f < 2 ^ 32"
    and "read_ehdr (io config) = Some ehdr" and "mimi_elf_validate_header ehdr = MIMI_OK"
    and "\<forall>i < unat (e_phnum ehdr). \<exists>ph. read_phdr (io config) ehdr i = Some ph \<and>
           (loadable ph \<longrightarrow>
              (validate_addresses config \<longrightarrow>
                 mimi_addr_valid (p_vaddr ph) (p_memsz ph) (MIMI_MEM_WRITE OR MIMI_MEM_RAM) config) \<and>
              unat (p_offset ph) + unat (p_filesz ph) \<le> length f)"
    and "\<forall>p q ph1 ph2. p < q \<and> q < min (unat (e_phnum ehdr)) MIMI_MAX_SEGMENTS \<and>
           read_phdr (io config) ehdr p = Some ph1 \<and> loadable ph1 \<and>
           read_phdr (io config) ehdr q = Some ph2 \<and> loadable ph2 \<longrightarrow>
           \<not> mimi_ranges_overlap (p_vaddr ph2) (p_memsz ph2) (p_vaddr ph1) (p_memsz ph1)"
    and "\<exists>i < min (unat (e_phnum ehdr)) MIMI_MAX_SEGMENTS.
           \<exists>ph. read_phdr (io config) ehdr i = Some ph \<and> loadable ph"
  shows "status (fst (mimi_elf_load config m)) = MIMI_OK \<and>
         unat (segment_count (fst (mimi_elf_load config m))) =
           min MIMI_MAX_SEGMENTS (length (load_headers config ehdr [0 ..< unat (e_phnum ehdr)]))"
proof -
  let ?n = "unat (e_phnum ehdr)"
  let ?n1 = "min ?n MIMI_MAX_SEGMENTS"
  have "\<exists>st. pass1 config ehdr [0 ..< ?n1] pass1_init = (MIMI_OK, st)"
  proof (rule pass1_succeeds)
    fix i assume "i \<in> set [0 ..< ?n1]"
    then show "\<exists>ph. read_phdr (io config) ehdr i = Some ph" using assms(5) by auto
  next
    fix i ph assume "i \<in> set [0 ..< ?n1]" "read_phdr (io config) ehdr i = Some ph" "loadable ph"
      "validate_addresses config"
    then show "mimi_addr_valid (p_vaddr ph) (p_memsz ph) (MIMI_MEM_WRITE OR MIMI_MEM_RAM) config"
      using assms(5) by auto
  next
    fix i and ph :: Elf32_Phdr and v msz assume "(v, msz) \<in> set (seg_info pass1_init)"
    then show "\<not> mimi_ranges_overlap (p_vaddr ph) (p_memsz ph) v msz"
      by (simp add: pass1_init_def)
  next
    fix p q ph1 ph2
    assume "p < q" "q < length [0 ..< ?n1]" "read_phdr (io config) ehdr ([0 ..< ?n1] ! p) = Some ph1"
      "loadable ph1" "read_phdr (io config) ehdr ([0 ..< ?n1] ! q) = Some ph2" "loadable ph2"
    then have "p < q \<and> q < min (unat (e_phnum ehdr)) MIMI_MAX_SEGMENTS \<and>
           read_phdr (io config) ehdr p = Some ph1 \<and> loadable ph1 \<and>
           read_phdr (io config) ehdr q = Some ph2 \<and> loadable ph2"
      by simp
    then show "\<not> mimi_ranges_overlap (p_vaddr ph2) (p_memsz ph2) (p_vaddr ph1) (p_memsz ph1)"
      using assms(6) by blast
  qed
  then obtain st where p1: "pass1 config ehdr [0 ..< ?n1] pass1_init = (MIMI_OK, st)" by blast
  obtain i ph where i: "i < ?n1" "read_phdr (io config) ehdr i = Some ph" "loadable ph"
    using assms(7) by blast
  have "length (filter (\<lambda>i. \<exists>ph. read_phdr (io config) ehdr i = Some ph \<and> loadable ph) [0 ..< ?n1]) > 0"
    using i by (auto simp: filter_empty_conv)
  then have lc: "loadable_count st \<noteq> 0"
    using pass1_ok_count [OF p1] by (simp add: loadable_count_def)
  let ?r1 = "result_init\<lparr>entry := e_entry ehdr, load_base := p1_load_base st,
      load_end := p1_load_end st\<rparr>"
  have "\<exists>k' r' m'. pass2 config ehdr [0 ..< ?n] 0 ?r1 m = (MIMI_OK, k', r', m')"
    using assms(5) by (intro pass2_succeeds [OF assms(1,2)]) auto
  then obtain k' r' m' where p2: "pass2 config ehdr [0 ..< ?n] 0 ?r1 m = (MIMI_OK, k', r', m')"
    by blast
  have res: "mimi_elf_load config m =
      (r'\<lparr>segment_count := of_nat k', total_size := total_memsz st, status := MIMI_OK\<rparr>, m')"
    using assms(3,4) p1 lc p2 by (simp add: mimi_elf_load_def Let_def)
  have "k' = min MIMI_MAX_SEGMENTS (0 + length (load_headers config ehdr [0 ..< ?n]))"
    using pass2_count [OF p2] by (simp add: result_init_def)
  moreover from this have "k' \<le> 16" by (simp add: MIMI_MAX_SEGMENTS_def)
  then have "unat (of_nat k' :: u32) = k'" by (simp add: unat_of_nat)
  ultimately show ?thesis by (simp add: res)
qed

lemma load_succeeds_img16:
  "mimi_elf_validate_header (ehdr_n 16) = MIMI_OK \<and>
   length (filter loadable (load_headers (test_config img16 True) (ehdr_n 16) [0 ..< 16])) = 16 \<and>
   status (fst (mimi_elf_load (test_config img16 True) mem_ff)) = MIMI_OK \<and>
   unat (segment_count (fst (mimi_elf_load (test_config img16 True) mem_ff))) = 16"
proof -
  let ?c = "test_config img16 True"
  have io: "io ?c = file_read img16" by simp
  have len: "length img16 < 2 ^ 32" by (simp add: img16_def)
  have eh: "read_ehdr (io ?c) = Some (ehdr_n 16)" by (simp add: img16_reads)
  have hv: "mimi_elf_validate_header (ehdr_n 16) = MIMI_OK" by (simp add: ehdr_n_valid)
  have hs: "\<forall>i < unat (e_phnum (ehdr_n 16)). \<exists>ph. read_phdr (io ?c) (ehdr_n 16) i = Some ph \<and>
           (loadable ph \<longrightarrow>
              (validate_addresses ?c \<longrightarrow>
                 mimi_addr_valid (p_vaddr ph) (p_memsz ph) (MIMI_MEM_WRITE OR MIMI_MEM_RAM) ?c) \<and>
              unat (p_offset ph) + unat (p_filesz ph) \<le> length img16)"
  proof (intro allI impI)
    fix i assume "i < unat (e_phnum (ehdr_n 16))"
    then have i: "i < 16" by simp
    have "mimi_addr_valid (p_vaddr (seg_k 564 i)) (p_memsz (seg_k 564 i))
            (MIMI_MEM_WRITE OR MIMI_MEM_RAM) ?c"
      using i by (intro ram_valid) (simp_all add: word_le_nat_alt seg_k_addr)
    moreover have "unat (p_offset (seg_k 564 i)) + unat (p_filesz (seg_k 564 i)) \<le> length img16"
      by (simp add: img16_def)
    ultimately show "\<exists>ph. read_phdr (io ?c) (ehdr_n 16) i = Some ph \<and>
           (loadable ph \<longrightarrow>
              (validate_addresses ?c \<longrightarrow>
                 mimi_addr_valid (p_vaddr ph) (p_memsz ph) (MIMI_MEM_WRITE OR MIMI_MEM_RAM) ?c) \<and>
              unat (p_offset ph) + unat (p_filesz ph) \<le> length img16)"
      using i by (simp add: img16_reads)
  qed
  have ov: "\<forall>p q ph1 ph2. p < q \<and> q < min (unat (e_phnum (ehdr_n 16))) MIMI_MAX_SEGMENTS \<and>
           read_phdr (io ?c) (ehdr_n 16) p = Some ph1 \<and> loadable ph1 \<and>
           read_phdr (io ?c) (ehdr_n 16) q = Some ph2 \<and> loadable ph2 \<longrightarrow>
           \<not> mimi_ranges_overlap (p_vaddr ph2) (p_memsz ph2) (p_vaddr ph1) (p_memsz ph1)"
  proof (intro allI impI)
    fix p q ph1 ph2
    assume a: "p < q \<and> q < min (unat (e_phnum (ehdr_n 16))) MIMI_MAX_SEGMENTS \<and>
           read_phdr (io ?c) (ehdr_n 16) p = Some ph1 \<and> loadable ph1 \<and>
           read_phdr (io ?c) (ehdr_n 16) q = Some ph2 \<and> loadable ph2"
    then have pq: "p < q" "q < 16" "p < 16" by (simp_all add: MIMI_MAX_SEGMENTS_def)
    have r1: "read_phdr (file_read img16) (ehdr_n 16) p = Some (seg_k 564 p)"
      using pq(3) by (rule img16_reads(2))
    have r2: "read_phdr (file_read img16) (ehdr_n 16) q = Some (seg_k 564 q)"
      using pq(2) by (rule img16_reads(2))
    have ph: "ph1 = seg_k 564 p" "ph2 = seg_k 564 q" using a r1 r2 by simp_all
    have "unat (0x20000000 + of_nat q + 1 :: u32) = 0x20000000 + q + 1"
      "unat (0x20000000 + of_nat p + 1 :: u32) = 0x20000000 + p + 1"
      using pq by (simp_all add: unat_word_ariths unat_of_nat)
    then show "\<not> mimi_ranges_overlap (p_vaddr ph2) (p_memsz ph2) (p_vaddr ph1) (p_memsz ph1)"
      using pq by (simp add: ph mimi_ranges_overlap_def Let_def word_less_nat_alt seg_k_addr)
  qed
  have ex: "\<exists>i < min (unat (e_phnum (ehdr_n 16))) MIMI_MAX_SEGMENTS.
           \<exists>ph. read_phdr (io ?c) (ehdr_n 16) i = Some ph \<and> loadable ph"
    by (rule exI [of _ 0]) (simp add: MIMI_MAX_SEGMENTS_def img16_reads)
  have lh: "load_headers ?c (ehdr_n 16) [0 ..< 16] = map (seg_k 564) [0 ..< 16]"
    by (simp add: upt_rec load_headers_Cons img16_reads)
  from load_succeeds [OF io len eh hv hs ov ex, of mem_ff]
  show ?thesis by (simp add: hv lh MIMI_MAX_SEGMENTS_def)
qed

section \<open>The limit of 16 segments\<close>

text \<open>
  C5 at an image with 17 program headers, all of them \<open>PT_LOAD\<close> with \<open>mem_size = 1\<close> at
  consecutive addresses.  The first pass looks at the headers of index 0 to 15 only, and
  the second pass leaves its loop once 16 segments are recorded: no path returns an
  error for the 17th segment.  The load returns \<open>MIMI_OK\<close> with \<open>segment_count = 16\<close>; the
  16th segment is in memory (\<open>0x2000000F\<close> holds its file byte), the 17th is not
  (\<open>0x20000010\<close> still holds \<open>0xFF\<close>).  The same happens to an image with exactly 16
  segments of \<open>mem_size > 0\<close> behind one empty \<open>PT_LOAD\<close> entry: the empty entry takes a
  slot of the segment table, the load returns \<open>MIMI_OK\<close> with \<open>segment_count = 16\<close>, and
  the last segment (\<open>0x2000000F\<close>) is never written.
\<close>

theorem segment_limit_truncates:
  "read_ehdr (file_read img17) = Some (ehdr_n 17) \<and>
   load_headers (test_config img17 False) (ehdr_n 17) [0 ..< 17] = map (seg_k 596) [0 ..< 17] \<and>
   status (fst (mimi_elf_load (test_config img17 False) mem_ff)) = MIMI_OK \<and>
   segment_count (fst (mimi_elf_load (test_config img17 False) mem_ff)) = 16 \<and>
   snd (mimi_elf_load (test_config img17 False) mem_ff) 0x2000000F = 0xAA \<and>
   snd (mimi_elf_load (test_config img17 False) mem_ff) 0x20000010 = 0xFF \<and>
   read_ehdr (file_read img_e16) = Some (ehdr_n 17) \<and>
   load_headers (test_config img_e16 False) (ehdr_n 17) [0 ..< 17] =
     ld 596 0x20000000 0 0 # map (seg_k 596) [0 ..< 16] \<and>
   status (fst (mimi_elf_load (test_config img_e16 False) mem_ff)) = MIMI_OK \<and>
   segment_count (fst (mimi_elf_load (test_config img_e16 False) mem_ff)) = 16 \<and>
   snd (mimi_elf_load (test_config img_e16 False) mem_ff) 0x2000000E = 0xAA \<and>
   snd (mimi_elf_load (test_config img_e16 False) mem_ff) 0x2000000F = 0xFF"
proof -
  have a: "read_ehdr (file_read img17) = Some (ehdr_n 17) \<and>
   load_headers (test_config img17 False) (ehdr_n 17) [0 ..< 17] = map (seg_k 596) [0 ..< 17]"
    unfolding img17_def
    by (simp add: upt_rec load_headers_Cons file_read_ehdr file_read_phdr seg_k_def)
  have b: "status (fst (mimi_elf_load (test_config img17 False) mem_ff)) = MIMI_OK \<and>
   segment_count (fst (mimi_elf_load (test_config img17 False) mem_ff)) = 16 \<and>
   snd (mimi_elf_load (test_config img17 False) mem_ff) 0x2000000F = 0xAA \<and>
   snd (mimi_elf_load (test_config img17 False) mem_ff) 0x20000010 = 0xFF"
    unfolding img17_def by (simp add: eval_simps)
  have c: "read_ehdr (file_read img_e16) = Some (ehdr_n 17) \<and>
   load_headers (test_config img_e16 False) (ehdr_n 17) [0 ..< 17] =
     ld 596 0x20000000 0 0 # map (seg_k 596) [0 ..< 16]"
    unfolding img_e16_def
    by (simp add: upt_rec load_headers_Cons file_read_ehdr file_read_phdr seg_k_def)
  have d: "status (fst (mimi_elf_load (test_config img_e16 False) mem_ff)) = MIMI_OK \<and>
   segment_count (fst (mimi_elf_load (test_config img_e16 False) mem_ff)) = 16 \<and>
   snd (mimi_elf_load (test_config img_e16 False) mem_ff) 0x2000000E = 0xAA \<and>
   snd (mimi_elf_load (test_config img_e16 False) mem_ff) 0x2000000F = 0xFF"
    unfolding img_e16_def by (simp add: eval_simps)
  show ?thesis using a b c d by blast
qed

end
